theory Spec2Isabelle
  imports Main "HOL-Library.Word"
begin

section \<open>Outcomes of a call\<close>

text \<open>
  Every fallible function of \<^verbatim>\<open>pkg/packet/bgp/mup.go\<close> returns either a value or an error
  built by \<^verbatim>\<open>NewMessageError(BGP_ERROR_UPDATE_MESSAGE_ERROR,
  BGP_ERROR_SUB_MALFORMED_ATTRIBUTE_LIST, nil, msg)\<close>; that error is \<open>MalformedAttribute msg\<close>.
  A Go run-time panic (index or slice bounds out of range, nil dereference) is the second
  kind of failure, \<open>Panic\<close>.
\<close>

datatype error = MalformedAttribute string | Panic

type_synonym 'a result = "error + 'a"

definition andThen :: "'a result \<Rightarrow> ('a \<Rightarrow> 'b result) \<Rightarrow> 'b result" where
  "andThen m f = (case m of Inl e \<Rightarrow> Inl e | Inr x \<Rightarrow> f x)"

section \<open>Go byte slices\<close>

text \<open>
  A Go slice has a length and a capacity. Indexing \<^verbatim>\<open>s[i]\<close> is checked against the
  length, re-slicing \<^verbatim>\<open>s[a:b]\<close> against the capacity, so a re-slice may reach octets of the
  backing array that lie after the slice's end. \<open>elems\<close> are the octets inside the length,
  \<open>beyond\<close> those between length and capacity.
\<close>

type_synonym byte = "8 word"

record slice =
  elems :: "byte list"
  beyond :: "byte list"

definition len :: "slice \<Rightarrow> nat" where
  "len s = length (elems s)"

definition cap :: "slice \<Rightarrow> nat" where
  "cap s = length (elems s) + length (beyond s)"

definition index :: "slice \<Rightarrow> nat \<Rightarrow> byte result" where
  "index s i = (if i < len s then Inr (elems s ! i) else Inl Panic)"

definition slice_range :: "slice \<Rightarrow> nat \<Rightarrow> nat \<Rightarrow> slice result" where
  "slice_range s a b =
     (if a \<le> b \<and> b \<le> cap s
      then Inr \<lparr>elems = take (b - a) (drop a (elems s @ beyond s)),
                beyond = drop b (elems s @ beyond s)\<rparr>
      else Inl Panic)"

definition slice_from :: "slice \<Rightarrow> nat \<Rightarrow> slice result" where
  "slice_from s a =
     (if a \<le> len s then Inr \<lparr>elems = drop a (elems s), beyond = beyond s\<rparr> else Inl Panic)"

definition slice_to :: "slice \<Rightarrow> nat \<Rightarrow> slice result" where
  "slice_to s b = slice_range s 0 b"

section \<open>Big-endian integers (encoding/binary)\<close>

fun be_nat :: "byte list \<Rightarrow> nat" where
  "be_nat bs = foldl (\<lambda>acc b. acc * 256 + unat b) 0 bs"

fun nat_bytes :: "nat \<Rightarrow> nat \<Rightarrow> byte list" where
  "nat_bytes 0 n = []"
| "nat_bytes (Suc k) n = nat_bytes k (n div 256) @ [of_nat (n mod 256)]"

text \<open>\<^verbatim>\<open>binary.BigEndian.Uint16(b)\<close> and \<^verbatim>\<open>Uint32(b)\<close> first touch \<^verbatim>\<open>b[1]\<close> and
  \<^verbatim>\<open>b[3]\<close>: they panic on a slice whose length is below 2 and 4.\<close>

definition Uint16 :: "slice \<Rightarrow> (16 word) result" where
  "Uint16 b = (if len b < 2 then Inl Panic else Inr (of_nat (be_nat (take 2 (elems b)))))"

definition Uint32 :: "slice \<Rightarrow> (32 word) result" where
  "Uint32 b = (if len b < 4 then Inl Panic else Inr (of_nat (be_nat (take 4 (elems b)))))"

definition PutUint16 :: "byte list \<Rightarrow> nat \<Rightarrow> 16 word \<Rightarrow> byte list" where
  "PutUint16 buf off v =
     (let bs = nat_bytes 2 (unat v) in buf[off := bs ! 0, off + 1 := bs ! 1])"

definition PutUint32 :: "byte list \<Rightarrow> nat \<Rightarrow> 32 word \<Rightarrow> byte list" where
  "PutUint32 buf off v =
     (let bs = nat_bytes 4 (unat v)
      in buf[off := bs ! 0, off + 1 := bs ! 1, off + 2 := bs ! 2, off + 3 := bs ! 3])"

section \<open>Formatting (fmt.Sprintf)\<close>

fun dec :: "nat \<Rightarrow> string" where
  "dec n = (if n < 10 then [''0123456789'' ! n]
            else dec (n div 10) @ [''0123456789'' ! (n mod 10)])"

declare dec.simps [simp del]

definition hex_byte :: "byte \<Rightarrow> string" where
  "hex_byte b = [''0123456789abcdef'' ! (unat b div 16), ''0123456789abcdef'' ! (unat b mod 16)]"

definition hex :: "byte list \<Rightarrow> string" where
  "hex bs = concat (map hex_byte bs)"

section \<open>Addresses and prefixes (net/netip)\<close>

text \<open>
  A \<^verbatim>\<open>netip.Addr\<close> is the zero value, an IPv4 address, or an IPv6 address together with
  its zone, the empty string when it has none (an IPv4-mapped IPv6 address is an IPv6
  address). \<^verbatim>\<open>AsSlice\<close> leaves the zone out and \<^verbatim>\<open>AddrFromSlice\<close> returns an address
  without one, so a zone does not survive the wire.
\<close>

datatype Addr = AddrZero | Addr4 "32 word" | Addr6 "128 word" string

definition AddrFromSlice :: "byte list \<Rightarrow> Addr option" where
  "AddrFromSlice bs =
     (if length bs = 4 then Some (Addr4 (of_nat (be_nat bs)))
      else if length bs = 16 then Some (Addr6 (of_nat (be_nat bs)) [])
      else None)"

fun AsSlice :: "Addr \<Rightarrow> byte list" where
  "AsSlice AddrZero = []"
| "AsSlice (Addr4 w) = nat_bytes 4 (unat w)"
| "AsSlice (Addr6 w z) = nat_bytes 16 (unat w)"

fun BitLen :: "Addr \<Rightarrow> nat" where
  "BitLen AddrZero = 0"
| "BitLen (Addr4 w) = 32"
| "BitLen (Addr6 w z) = 128"

fun Is6 :: "Addr \<Rightarrow> bool" where
  "Is6 (Addr6 w z) = True"
| "Is6 a = False"

fun Zone :: "Addr \<Rightarrow> string" where
  "Zone (Addr6 w z) = z"
| "Zone a = []"

fun withoutZone :: "Addr \<Rightarrow> Addr" where
  "withoutZone (Addr6 w z) = Addr6 w []"
| "withoutZone a = a"

text \<open>A \<^verbatim>\<open>netip.Prefix\<close>; \<open>Bits\<close> is \<open>-1\<close> for an invalid prefix, as \<^verbatim>\<open>Prefix.Bits()\<close>
  reports it. \<^verbatim>\<open>PrefixFrom\<close> stores the address without its zone.\<close>

record Prefix =
  Addr_of :: Addr
  Bits :: int

definition PrefixFrom :: "Addr \<Rightarrow> int \<Rightarrow> Prefix" where
  "PrefixFrom ip bits =
     \<lparr>Addr_of = withoutZone ip,
      Bits = (if ip \<noteq> AddrZero \<and> 0 \<le> bits \<and> bits \<le> int (BitLen ip) then bits else - 1)\<rparr>"

definition zero_Prefix :: Prefix where
  "zero_Prefix = \<lparr>Addr_of = AddrZero, Bits = - 1\<rparr>"

section \<open>Collaborators declared outside this file\<close>

text \<open>
  Modelled from the spec: the route distinguisher (\<^verbatim>\<open>RouteDistinguisherInterface\<close>, its
  factory \<^verbatim>\<open>GetRouteDistinguisher\<close>, \<^verbatim>\<open>Len\<close> and \<^verbatim>\<open>Serialize\<close>) is not part of
  \<^verbatim>\<open>mup.go\<close>. The spec describes it as an opaque 8-octet identifier with its own
  decode/encode, produced by a factory that inspects the raw bytes and that the codec only
  calls for its length and its serialization. The factory has no error result, so taking
  the 8 leading octets from a slice that does not hold them is a run-time panic.
\<close>

datatype RouteDistinguisher = RouteDistinguisher "64 word"

definition GetRouteDistinguisher :: "slice \<Rightarrow> RouteDistinguisher result" where
  "GetRouteDistinguisher data =
     andThen (slice_range data 0 8) (\<lambda>d. Inr (RouteDistinguisher (of_nat (be_nat (elems d)))))"

fun rd_Len :: "RouteDistinguisher \<Rightarrow> nat" where
  "rd_Len (RouteDistinguisher w) = 8"

fun rd_Serialize :: "RouteDistinguisher \<Rightarrow> (byte list) result" where
  "rd_Serialize (RouteDistinguisher w) = Inr (nat_bytes 8 (unat w))"

text \<open>
  Modelled from the spec: the address-family identifiers \<^verbatim>\<open>AFI_IP\<close> and \<^verbatim>\<open>AFI_IP6\<close> are
  constants declared outside \<^verbatim>\<open>mup.go\<close>; the spec names the two families IPv4 and IPv6.
\<close>

datatype AFI = AFI_IP | AFI_IP6

section \<open>The MUP extended community\<close>

text \<open>
  The tags \<^verbatim>\<open>EC_TYPE_MUP\<close> and \<^verbatim>\<open>EC_SUBTYPE_MUP_DIRECT_SEG\<close> are constants declared
  outside \<^verbatim>\<open>mup.go\<close>; the functions below take them as their first two arguments.
\<close>

record MUPExtended =
  SubType :: byte
  SegmentID2 :: "16 word"
  SegmentID4 :: "32 word"

definition MUPExtended_Serialize :: "byte \<Rightarrow> byte \<Rightarrow> MUPExtended \<Rightarrow> (byte list) result" where
  "MUPExtended_Serialize EC_TYPE_MUP EC_SUBTYPE_MUP_DIRECT_SEG e =
     (let buf = replicate 8 0;
          buf = buf[0 := EC_TYPE_MUP];
          buf = buf[1 := EC_SUBTYPE_MUP_DIRECT_SEG];
          buf = PutUint16 buf 2 (SegmentID2 e);
          buf = PutUint32 buf 4 (SegmentID4 e)
      in Inr buf)"

definition MUPExtended_String :: "MUPExtended \<Rightarrow> string" where
  "MUPExtended_String e = dec (unat (SegmentID2 e)) @ '':'' @ dec (unat (SegmentID4 e))"

definition NewMUPExtended :: "byte \<Rightarrow> 16 word \<Rightarrow> 32 word \<Rightarrow> MUPExtended" where
  "NewMUPExtended EC_SUBTYPE_MUP_DIRECT_SEG sid2 sid4 =
     \<lparr>SubType = EC_SUBTYPE_MUP_DIRECT_SEG, SegmentID2 = sid2, SegmentID4 = sid4\<rparr>"

definition parseMUPExtended :: "byte \<Rightarrow> byte \<Rightarrow> slice \<Rightarrow> MUPExtended result" where
  "parseMUPExtended EC_TYPE_MUP EC_SUBTYPE_MUP_DIRECT_SEG data =
     andThen (index data 0) (\<lambda>typ.
       if typ \<noteq> EC_TYPE_MUP
       then Inl (MalformedAttribute (''ext comm type is not EC_TYPE_MUP: '' @ dec (unat typ)))
       else andThen (index data 1) (\<lambda>subType.
         if subType = EC_SUBTYPE_MUP_DIRECT_SEG
         then andThen (andThen (slice_range data 2 4) Uint16) (\<lambda>sid2.
              andThen (andThen (slice_range data 4 8) Uint32) (\<lambda>sid4.
                Inr (NewMUPExtended EC_SUBTYPE_MUP_DIRECT_SEG sid2 sid4)))
         else Inl (MalformedAttribute (''unknown mup subtype: '' @ dec (unat subType)))))"

section \<open>Route variants and the envelope\<close>

definition MUP_ARCH_TYPE_UNDEFINED :: byte where "MUP_ARCH_TYPE_UNDEFINED = 0"
definition MUP_ARCH_TYPE_3GPP_5G :: byte where "MUP_ARCH_TYPE_3GPP_5G = 1"

definition MUP_ROUTE_TYPE_INTERWORK_SEGMENT_DISCOVERY :: "16 word" where
  "MUP_ROUTE_TYPE_INTERWORK_SEGMENT_DISCOVERY = 1"
definition MUP_ROUTE_TYPE_DIRECT_SEGMENT_DISCOVERY :: "16 word" where
  "MUP_ROUTE_TYPE_DIRECT_SEGMENT_DISCOVERY = 2"
definition MUP_ROUTE_TYPE_TYPE_1_SESSION_TRANSFORMED :: "16 word" where
  "MUP_ROUTE_TYPE_TYPE_1_SESSION_TRANSFORMED = 3"
definition MUP_ROUTE_TYPE_TYPE_2_SESSION_TRANSFORMED :: "16 word" where
  "MUP_ROUTE_TYPE_TYPE_2_SESSION_TRANSFORMED = 4"

text \<open>In every record the distinguisher is an interface value: \<open>None\<close> is Go's \<^verbatim>\<open>nil\<close>.\<close>

record MUPInterworkSegmentDiscoveryRoute =
  isd_RD :: "RouteDistinguisher option"
  isd_PrefixLength :: byte
  isd_Prefix :: Prefix

record MUPDirectSegmentDiscoveryRoute =
  dsd_RD :: "RouteDistinguisher option"
  dsd_Address :: Addr

record MUPType1SessionTransformedRoute =
  t1_RD :: "RouteDistinguisher option"
  t1_PrefixLength :: byte
  t1_Prefix :: Addr
  t1_TEID :: "32 word"
  t1_QFI :: byte
  t1_EndpointAddressLength :: byte
  t1_EndpointAddress :: Addr

record MUPType2SessionTransformedRoute =
  t2_RD :: "RouteDistinguisher option"
  t2_EndpointAddressLength :: byte
  t2_EndpointAddress :: Addr
  t2_TEID :: "32 word"

text \<open>\<^verbatim>\<open>MUPRouteTypeInterface\<close> is satisfied by exactly these four types. The envelope
  embeds a \<^verbatim>\<open>PrefixDefault\<close>, declared outside \<^verbatim>\<open>mup.go\<close>, that no function here reads or
  writes; the record leaves it out.\<close>

datatype MUPRoute =
  Interwork MUPInterworkSegmentDiscoveryRoute
| Direct MUPDirectSegmentDiscoveryRoute
| Type1 MUPType1SessionTransformedRoute
| Type2 MUPType2SessionTransformedRoute

record MUPNLRI =
  ArchitectureType :: byte
  RouteType :: "16 word"
  Length :: byte
  RouteTypeData :: "MUPRoute option"

text \<open>The zero values \<^verbatim>\<open>&T{}\<close> that the registry hands out.\<close>

definition zero_isd :: MUPInterworkSegmentDiscoveryRoute where
  "zero_isd = \<lparr>isd_RD = None, isd_PrefixLength = 0, isd_Prefix = zero_Prefix\<rparr>"

definition zero_dsd :: MUPDirectSegmentDiscoveryRoute where
  "zero_dsd = \<lparr>dsd_RD = None, dsd_Address = AddrZero\<rparr>"

definition zero_t1 :: MUPType1SessionTransformedRoute where
  "zero_t1 = \<lparr>t1_RD = None, t1_PrefixLength = 0, t1_Prefix = AddrZero, t1_TEID = 0, t1_QFI = 0,
               t1_EndpointAddressLength = 0, t1_EndpointAddress = AddrZero\<rparr>"

definition zero_t2 :: MUPType2SessionTransformedRoute where
  "zero_t2 = \<lparr>t2_RD = None, t2_EndpointAddressLength = 0, t2_EndpointAddress = AddrZero,
               t2_TEID = 0\<rparr>"

definition unknown_route :: "byte \<Rightarrow> 16 word \<Rightarrow> error" where
  "unknown_route at rt =
     MalformedAttribute (''Unknown MUP Architecture and Route type: '' @ dec (unat at) @ '', ''
                          @ dec (unat rt))"

definition getMUPRouteType :: "byte \<Rightarrow> 16 word \<Rightarrow> MUPRoute result" where
  "getMUPRouteType at rt =
     (if rt = MUP_ROUTE_TYPE_INTERWORK_SEGMENT_DISCOVERY then
        (if at = MUP_ARCH_TYPE_3GPP_5G then Inr (Interwork zero_isd)
         else Inl (unknown_route at rt))
      else if rt = MUP_ROUTE_TYPE_DIRECT_SEGMENT_DISCOVERY then
        (if at = MUP_ARCH_TYPE_3GPP_5G then Inr (Direct zero_dsd)
         else Inl (unknown_route at rt))
      else if rt = MUP_ROUTE_TYPE_TYPE_1_SESSION_TRANSFORMED then
        (if at = MUP_ARCH_TYPE_3GPP_5G then Inr (Type1 zero_t1)
         else Inl (unknown_route at rt))
      else if rt = MUP_ROUTE_TYPE_TYPE_2_SESSION_TRANSFORMED then
        (if at = MUP_ARCH_TYPE_3GPP_5G then Inr (Type2 zero_t2)
         else Inl (unknown_route at rt))
      else Inl (unknown_route at rt))"

section \<open>Decoding the route variants\<close>

text \<open>
  Each \<^verbatim>\<open>DecodeFromBytes\<close> fills its receiver \<open>r\<close> field by field while a cursor \<open>p\<close>
  moves over \<open>data\<close>; the model returns the filled receiver. The cursor is a Go \<^verbatim>\<open>int\<close>
  that never goes below zero here, so it is a \<open>nat\<close>. When a decoder fails, the fields it
  has already written stay in the receiver; the result then is the failure alone.
\<close>

definition isd_DecodeFromBytes ::
  "MUPInterworkSegmentDiscoveryRoute \<Rightarrow> slice \<Rightarrow> MUPInterworkSegmentDiscoveryRoute result" where
  "isd_DecodeFromBytes r data =
     andThen (GetRouteDistinguisher data) (\<lambda>rd.
       let r = r\<lparr>isd_RD := Some rd\<rparr>; p = rd_Len rd in
       if len data < p
       then Inl (MalformedAttribute ''invalid Interwork Segment Discovery Route length'')
       else andThen (index data p) (\<lambda>pl.
         let r = r\<lparr>isd_PrefixLength := pl\<rparr>; p = p + 1 in
         andThen (slice_from data p) (\<lambda>rest.
           case AddrFromSlice (elems rest) of
             None \<Rightarrow> Inl (MalformedAttribute (''Invalid Prefix: '' @ hex (elems rest)))
           | Some addr \<Rightarrow>
               let r = r\<lparr>isd_Prefix := PrefixFrom addr (int (unat pl))\<rparr> in
               if Bits (isd_Prefix r) = - 1
               then Inl (MalformedAttribute ''Invalid Prefix: invalid Prefix'')
               else Inr r)))"

text \<open>\<^verbatim>\<open>%s\<close> and \<^verbatim>\<open>%d\<close> applied to a byte slice, as the two address errors of the
  Direct Segment Discovery decoder format it.\<close>

definition fmt_s_bytes :: "byte list \<Rightarrow> string" where
  "fmt_s_bytes bs = map (\<lambda>b. char_of (unat b)) bs"

fun join_space :: "string list \<Rightarrow> string" where
  "join_space [] = []"
| "join_space [x] = x"
| "join_space (x # y # ys) = x @ '' '' @ join_space (y # ys)"

definition fmt_d_bytes :: "byte list \<Rightarrow> string" where
  "fmt_d_bytes bs = ''['' @ join_space (map (\<lambda>b. dec (unat b)) bs) @ '']''"

definition dsd_DecodeFromBytes ::
  "MUPDirectSegmentDiscoveryRoute \<Rightarrow> slice \<Rightarrow> MUPDirectSegmentDiscoveryRoute result" where
  "dsd_DecodeFromBytes r data =
     andThen (GetRouteDistinguisher data) (\<lambda>rd.
       let r = r\<lparr>dsd_RD := Some rd\<rparr>; rdLen = rd_Len rd in
       if len data \<noteq> 12 \<and> len data \<noteq> 24
       then Inl (MalformedAttribute ''invalid Direct Segment Discovery Route length'')
       else if len data = 12 then
         andThen (slice_range data rdLen (rdLen + 4)) (\<lambda>a.
           case AddrFromSlice (elems a) of
             None \<Rightarrow> Inl (MalformedAttribute (''Invalid Address: '' @ fmt_s_bytes (elems a)))
           | Some address \<Rightarrow> Inr (r\<lparr>dsd_Address := address\<rparr>))
       else if len data = 24 then
         andThen (slice_range data rdLen (rdLen + 16)) (\<lambda>a.
           case AddrFromSlice (elems a) of
             None \<Rightarrow> Inl (MalformedAttribute (''Invalid Address: '' @ fmt_d_bytes (elems a)))
           | Some address \<Rightarrow> Inr (r\<lparr>dsd_Address := address\<rparr>))
       else Inr r)"

definition t1_DecodeFromBytes ::
  "MUPType1SessionTransformedRoute \<Rightarrow> slice \<Rightarrow> MUPType1SessionTransformedRoute result" where
  "t1_DecodeFromBytes r data =
     andThen (GetRouteDistinguisher data) (\<lambda>rd.
       let r = r\<lparr>t1_RD := Some rd\<rparr>; p = rd_Len rd in
       if len data < p
       then Inl (MalformedAttribute
                  ''invalid 3GPP 5G specific Type 1 Session Transformed Route length'')
       else andThen (index data p) (\<lambda>pl.
         let r = r\<lparr>t1_PrefixLength := pl\<rparr>; p = p + 1 in
         if pl = 32 \<or> pl = 128 then
           andThen (slice_range data p (p + unat (pl div 8))) (\<lambda>s.
             case AddrFromSlice (elems s) of
               None \<Rightarrow> Inl (MalformedAttribute (''Invalid Prefix: '' @ hex (elems s)))
             | Some prefix \<Rightarrow>
                 let r = r\<lparr>t1_Prefix := prefix\<rparr>; p = p + unat (pl div 8) in
                 andThen (andThen (slice_range data p (p + 4)) Uint32) (\<lambda>teid.
                   let r = r\<lparr>t1_TEID := teid\<rparr>; p = p + 4 in
                   andThen (index data p) (\<lambda>qfi.
                     let r = r\<lparr>t1_QFI := qfi\<rparr>; p = p + 1 in
                     andThen (index data p) (\<lambda>el.
                       let r = r\<lparr>t1_EndpointAddressLength := el\<rparr>; p = p + 1 in
                       if el = 32 \<or> el = 128 then
                         andThen (slice_range data p (p + unat (el div 8))) (\<lambda>s.
                           case AddrFromSlice (elems s) of
                             None \<Rightarrow> Inl (MalformedAttribute
                                            (''Invalid Endpoint Address: '' @ hex (elems s)))
                           | Some ea \<Rightarrow> Inr (r\<lparr>t1_EndpointAddress := ea\<rparr>))
                       else Inl (MalformedAttribute
                                  (''Invalid Endpoint Address length: '' @ dec (unat el)))))))
         else Inl (MalformedAttribute (''Invalid Prefix length: '' @ dec (unat pl)))))"

text \<open>
  In the Type-2 decoder \<^verbatim>\<open>teidLen = int(r.EndpointAddressLength)/8 - 4\<close> (or \<^verbatim>\<open>- 16\<close>) is
  computed inside a band whose lower end is 32 (or 128), so the subtraction on \<open>nat\<close> is
  the one on \<^verbatim>\<open>int\<close>. The closing two statements of the function,
  \<^verbatim>\<open>r.EndpointAddress = ea\<close> and \<^verbatim>\<open>r.TEID = binary.BigEndian.Uint32(data[p : p+teidLen])\<close>,
  are \<open>t2_finish\<close>.
\<close>

definition t2_finish ::
  "MUPType2SessionTransformedRoute \<Rightarrow> slice \<Rightarrow> Addr \<Rightarrow> nat \<Rightarrow> nat
     \<Rightarrow> MUPType2SessionTransformedRoute result" where
  "t2_finish r data ea p teidLen =
     (let r = r\<lparr>t2_EndpointAddress := ea\<rparr> in
      andThen (andThen (slice_range data p (p + teidLen)) Uint32) (\<lambda>teid.
        Inr (r\<lparr>t2_TEID := teid\<rparr>)))"

definition t2_DecodeFromBytes ::
  "MUPType2SessionTransformedRoute \<Rightarrow> slice \<Rightarrow> MUPType2SessionTransformedRoute result" where
  "t2_DecodeFromBytes r data =
     andThen (GetRouteDistinguisher data) (\<lambda>rd.
       let r = r\<lparr>t2_RD := Some rd\<rparr>; p = rd_Len rd in
       if len data < p
       then Inl (MalformedAttribute
                  ''invalid 3GPP 5G specific Type 2 Session Transformed Route length'')
       else andThen (index data p) (\<lambda>el.
         let r = r\<lparr>t2_EndpointAddressLength := el\<rparr>; p = p + 1 in
         if 32 \<le> el \<and> el \<le> 64 then
           andThen (slice_range data p (p + 4)) (\<lambda>s.
             case AddrFromSlice (elems s) of
               None \<Rightarrow> andThen (slice_range data p (p + unat (el div 8))) (\<lambda>x.
                         Inl (MalformedAttribute (''Invalid Endpoint Address: '' @ hex (elems x))))
             | Some ea \<Rightarrow> t2_finish r data ea (p + 4) (unat el div 8 - 4))
         else if 128 \<le> el \<and> el \<le> 160 then
           andThen (slice_range data p (p + 16)) (\<lambda>s.
             case AddrFromSlice (elems s) of
               None \<Rightarrow> andThen (slice_range data p (p + unat (el div 8))) (\<lambda>x.
                         Inl (MalformedAttribute (''Invalid Endpoint Address: '' @ hex (elems x))))
             | Some ea \<Rightarrow> t2_finish r data ea (p + 16) (unat el div 8 - 16))
         else Inl (MalformedAttribute (''Invalid Endpoint Address length: '' @ dec (unat el)))))"

section \<open>Serializing the route variants\<close>

text \<open>The common opening of the four \<^verbatim>\<open>Serialize\<close> methods: the distinguisher's own
  encoding, or \<^verbatim>\<open>make([]byte, 8)\<close> when the distinguisher is \<^verbatim>\<open>nil\<close>.\<close>

definition rd_buf :: "RouteDistinguisher option \<Rightarrow> (byte list) result" where
  "rd_buf rd = (case rd of Some d \<Rightarrow> rd_Serialize d | None \<Rightarrow> Inr (replicate 8 0))"

definition isd_Serialize :: "MUPInterworkSegmentDiscoveryRoute \<Rightarrow> (byte list) result" where
  "isd_Serialize r =
     andThen (rd_buf (isd_RD r)) (\<lambda>buf.
       let buf = buf @ [isd_PrefixLength r];
           buf = buf @ AsSlice (Addr_of (isd_Prefix r))
       in Inr buf)"

definition dsd_Serialize :: "MUPDirectSegmentDiscoveryRoute \<Rightarrow> (byte list) result" where
  "dsd_Serialize r =
     andThen (rd_buf (dsd_RD r)) (\<lambda>buf.
       let buf = buf @ AsSlice (dsd_Address r)
       in Inr buf)"

definition t1_Serialize :: "MUPType1SessionTransformedRoute \<Rightarrow> (byte list) result" where
  "t1_Serialize r =
     andThen (rd_buf (t1_RD r)) (\<lambda>buf.
       let buf = buf @ [t1_PrefixLength r];
           buf = buf @ AsSlice (t1_Prefix r);
           t = PutUint32 (replicate 4 0) 0 (t1_TEID r);
           buf = buf @ t;
           buf = buf @ [t1_QFI r];
           buf = buf @ [t1_EndpointAddressLength r];
           buf = buf @ AsSlice (t1_EndpointAddress r)
       in Inr buf)"

definition t2_Serialize :: "MUPType2SessionTransformedRoute \<Rightarrow> (byte list) result" where
  "t2_Serialize r =
     andThen (rd_buf (t2_RD r)) (\<lambda>buf.
       let buf = buf @ [t2_EndpointAddressLength r];
           buf = buf @ AsSlice (t2_EndpointAddress r);
           t = PutUint32 (replicate 4 0) 0 (t2_TEID r);
           buf = buf @ t
       in Inr buf)"

section \<open>Length and address family of the route variants\<close>

definition isd_Len :: "MUPInterworkSegmentDiscoveryRoute \<Rightarrow> nat" where
  "isd_Len r = 9 + BitLen (Addr_of (isd_Prefix r)) div 8"

definition dsd_Len :: "MUPDirectSegmentDiscoveryRoute \<Rightarrow> nat" where
  "dsd_Len r = 8 + BitLen (dsd_Address r) div 8"

definition t1_Len :: "MUPType1SessionTransformedRoute \<Rightarrow> nat" where
  "t1_Len r = 15 + unat (t1_PrefixLength r div 8) + unat (t1_EndpointAddressLength r div 8)"

definition t2_Len :: "MUPType2SessionTransformedRoute \<Rightarrow> nat" where
  "t2_Len r = 9 + unat (t2_EndpointAddressLength r div 8)"

definition isd_AFI :: "MUPInterworkSegmentDiscoveryRoute \<Rightarrow> AFI" where
  "isd_AFI r = (if Is6 (Addr_of (isd_Prefix r)) then AFI_IP6 else AFI_IP)"

definition dsd_AFI :: "MUPDirectSegmentDiscoveryRoute \<Rightarrow> AFI" where
  "dsd_AFI r = (if Is6 (dsd_Address r) then AFI_IP6 else AFI_IP)"

definition t1_AFI :: "MUPType1SessionTransformedRoute \<Rightarrow> AFI" where
  "t1_AFI r = (if Is6 (t1_Prefix r) then AFI_IP6 else AFI_IP)"

definition t2_AFI :: "MUPType2SessionTransformedRoute \<Rightarrow> AFI" where
  "t2_AFI r = (if Is6 (t2_EndpointAddress r) then AFI_IP6 else AFI_IP)"

section \<open>Method dispatch through the interface\<close>

fun route_DecodeFromBytes :: "MUPRoute \<Rightarrow> slice \<Rightarrow> MUPRoute result" where
  "route_DecodeFromBytes (Interwork r) data = andThen (isd_DecodeFromBytes r data) (\<lambda>x. Inr (Interwork x))"
| "route_DecodeFromBytes (Direct r) data = andThen (dsd_DecodeFromBytes r data) (\<lambda>x. Inr (Direct x))"
| "route_DecodeFromBytes (Type1 r) data = andThen (t1_DecodeFromBytes r data) (\<lambda>x. Inr (Type1 x))"
| "route_DecodeFromBytes (Type2 r) data = andThen (t2_DecodeFromBytes r data) (\<lambda>x. Inr (Type2 x))"

fun route_Serialize :: "MUPRoute \<Rightarrow> (byte list) result" where
  "route_Serialize (Interwork r) = isd_Serialize r"
| "route_Serialize (Direct r) = dsd_Serialize r"
| "route_Serialize (Type1 r) = t1_Serialize r"
| "route_Serialize (Type2 r) = t2_Serialize r"

fun route_Len :: "MUPRoute \<Rightarrow> nat" where
  "route_Len (Interwork r) = isd_Len r"
| "route_Len (Direct r) = dsd_Len r"
| "route_Len (Type1 r) = t1_Len r"
| "route_Len (Type2 r) = t2_Len r"

text \<open>The accessor \<^verbatim>\<open>rd()\<close> of the four variants.\<close>

fun route_rd :: "MUPRoute \<Rightarrow> RouteDistinguisher option" where
  "route_rd (Interwork r) = isd_RD r"
| "route_rd (Direct r) = dsd_RD r"
| "route_rd (Type1 r) = t1_RD r"
| "route_rd (Type2 r) = t2_RD r"

fun route_AFI :: "MUPRoute \<Rightarrow> AFI" where
  "route_AFI (Interwork r) = isd_AFI r"
| "route_AFI (Direct r) = dsd_AFI r"
| "route_AFI (Type1 r) = t1_AFI r"
| "route_AFI (Type2 r) = t2_AFI r"

section \<open>The envelope\<close>

definition MUPNLRI_DecodeFromBytes :: "MUPNLRI \<Rightarrow> slice \<Rightarrow> MUPNLRI result" where
  "MUPNLRI_DecodeFromBytes n data =
     (if len data < 4
      then Inl (MalformedAttribute ''Not all MUPNLRI bytes available'')
      else andThen (index data 0) (\<lambda>at.
           andThen (andThen (slice_range data 1 3) Uint16) (\<lambda>rt.
           andThen (index data 3) (\<lambda>l.
             let n = n\<lparr>ArchitectureType := at, RouteType := rt, Length := l\<rparr> in
             andThen (slice_from data 4) (\<lambda>data.
               if len data < unat (Length n)
               then Inl (MalformedAttribute ''Not all MUPNLRI Route type bytes available'')
               else andThen (getMUPRouteType (ArchitectureType n) (RouteType n)) (\<lambda>r.
                    andThen (slice_to data (unat (Length n))) (\<lambda>body.
                    andThen (route_DecodeFromBytes r body) (\<lambda>r.
                      Inr (n\<lparr>RouteTypeData := Some r\<rparr>)))))))))"

text \<open>Calling \<^verbatim>\<open>Serialize\<close> on a \<^verbatim>\<open>nil\<close> \<^verbatim>\<open>RouteTypeData\<close> is a nil dereference.\<close>

definition MUPNLRI_Serialize :: "MUPNLRI \<Rightarrow> (byte list) result" where
  "MUPNLRI_Serialize n =
     (let buf = replicate 4 0;
          buf = buf[0 := ArchitectureType n];
          buf = PutUint16 buf 1 (RouteType n);
          buf = buf[3 := Length n]
      in case RouteTypeData n of
           None \<Rightarrow> Inl Panic
         | Some r \<Rightarrow> andThen (route_Serialize r) (\<lambda>tbuf. Inr (buf @ tbuf)))"

definition MUPNLRI_Len :: "MUPNLRI \<Rightarrow> nat" where
  "MUPNLRI_Len n = unat (Length n) + 4"

section \<open>Constructors\<close>

definition NewMUPNLRI :: "byte \<Rightarrow> 16 word \<Rightarrow> MUPRoute option \<Rightarrow> MUPNLRI" where
  "NewMUPNLRI at rt data =
     (let l = (case data of None \<Rightarrow> 0 | Some d \<Rightarrow> of_nat (route_Len d))
      in \<lparr>ArchitectureType = at, RouteType = rt, Length = l, RouteTypeData = data\<rparr>)"

definition NewMUPInterworkSegmentDiscoveryRoute ::
  "RouteDistinguisher option \<Rightarrow> Prefix \<Rightarrow> MUPNLRI" where
  "NewMUPInterworkSegmentDiscoveryRoute rd prefix =
     NewMUPNLRI MUP_ARCH_TYPE_3GPP_5G MUP_ROUTE_TYPE_INTERWORK_SEGMENT_DISCOVERY
       (Some (Interwork \<lparr>isd_RD = rd, isd_PrefixLength = of_int (Bits prefix),
                         isd_Prefix = prefix\<rparr>))"

definition NewMUPDirectSegmentDiscoveryRoute ::
  "RouteDistinguisher option \<Rightarrow> Addr \<Rightarrow> MUPNLRI" where
  "NewMUPDirectSegmentDiscoveryRoute rd address =
     NewMUPNLRI MUP_ARCH_TYPE_3GPP_5G MUP_ROUTE_TYPE_DIRECT_SEGMENT_DISCOVERY
       (Some (Direct \<lparr>dsd_RD = rd, dsd_Address = address\<rparr>))"

definition NewMUPType1SessionTransformedRoute ::
  "RouteDistinguisher option \<Rightarrow> Addr \<Rightarrow> 32 word \<Rightarrow> byte \<Rightarrow> Addr \<Rightarrow> MUPNLRI" where
  "NewMUPType1SessionTransformedRoute rd prefix teid qfi ea =
     NewMUPNLRI MUP_ARCH_TYPE_3GPP_5G MUP_ROUTE_TYPE_TYPE_1_SESSION_TRANSFORMED
       (Some (Type1 \<lparr>t1_RD = rd, t1_PrefixLength = of_nat (BitLen prefix), t1_Prefix = prefix,
                     t1_TEID = teid, t1_QFI = qfi,
                     t1_EndpointAddressLength = of_nat (BitLen ea), t1_EndpointAddress = ea\<rparr>))"

definition NewMUPType2SessionTransformedRoute ::
  "RouteDistinguisher option \<Rightarrow> Addr \<Rightarrow> 32 word \<Rightarrow> MUPNLRI" where
  "NewMUPType2SessionTransformedRoute rd ea teid =
     NewMUPNLRI MUP_ARCH_TYPE_3GPP_5G MUP_ROUTE_TYPE_TYPE_2_SESSION_TRANSFORMED
       (Some (Type2 \<lparr>t2_RD = rd, t2_EndpointAddressLength = of_nat (BitLen ea) + 32,
                     t2_EndpointAddress = ea, t2_TEID = teid\<rparr>))"

section \<open>Basic facts about the model\<close>

lemma andThen_Inr [simp]: "andThen (Inr x) f = f x"
  by (simp add: andThen_def)

lemma andThen_Inl [simp]: "andThen (Inl e) f = Inl e"
  by (simp add: andThen_def)

lemma list_update_Cons_numeral [simp]:
  "(x # xs)[numeral v := y] = x # xs[numeral v - 1 := y]"
  by (simp add: numeral_eq_Suc)

lemma replicate_8_zero: "replicate 8 (0::byte) = [0, 0, 0, 0, 0, 0, 0, 0]"
  by code_simp

lemma replicate_4_zero: "replicate 4 (0::byte) = [0, 0, 0, 0]"
  by code_simp

lemma length_nat_bytes [simp]: "length (nat_bytes k n) = k"
  by (induction k arbitrary: n) simp_all

lemma be_nat_snoc: "be_nat (bs @ [b]) = be_nat bs * 256 + unat b"
  by simp

lemma byte_lt: "unat (b :: byte) < 256"
  using unsigned_less [of b, where 'a = nat] by simp

lemma be_nat_lt: "be_nat bs < 256 ^ length bs"
proof (induction bs rule: rev_induct)
  case Nil
  show ?case by simp
next
  case (snoc b bs)
  have "be_nat bs * 256 + unat b < (be_nat bs + 1) * 256"
    using byte_lt [of b] by simp
  also have "\<dots> \<le> 256 ^ length bs * 256"
    using snoc.IH by (intro mult_le_mono1) simp
  finally show ?case by (simp only: be_nat_snoc length_append_singleton power_Suc2)
qed

lemma unat_byte_of_nat: "unat (of_nat (n mod 256) :: byte) = n mod 256"
  by (simp add: unat_of_nat)

lemma be_nat_nat_bytes: "be_nat (nat_bytes k n) = n mod 256 ^ k"
proof (induction k arbitrary: n)
  case 0
  show ?case by simp
next
  case (Suc k)
  have "be_nat (nat_bytes (Suc k) n) = be_nat (nat_bytes k (n div 256)) * 256 + n mod 256"
    by (simp only: nat_bytes.simps be_nat_snoc unat_byte_of_nat)
  also have "\<dots> = (n div 256) mod 256 ^ k * 256 + n mod 256"
    by (simp only: Suc.IH)
  also have "\<dots> = n mod 256 ^ Suc k"
    by (simp add: mod_mult2_eq)
  finally show ?case .
qed

lemma nat_bytes_be_nat: "nat_bytes (length bs) (be_nat bs) = bs"
proof (induction bs rule: rev_induct)
  case Nil
  show ?case by simp
next
  case (snoc b bs)
  have d: "(be_nat bs * 256 + unat b) div 256 = be_nat bs"
    and m: "(be_nat bs * 256 + unat b) mod 256 = unat b"
    using byte_lt [of b] by simp_all
  have "nat_bytes (Suc (length bs)) (be_nat bs * 256 + unat b) = bs @ [b]"
    unfolding nat_bytes.simps d m using snoc.IH by simp
  then show ?case by (simp only: be_nat_snoc length_append_singleton)
qed

lemma nat_bytes_2: "nat_bytes 2 n = [of_nat (n div 256 mod 256), of_nat (n mod 256)]"
proof -
  have "nat_bytes (Suc (Suc 0)) n = [of_nat (n div 256 mod 256), of_nat (n mod 256)]"
    by simp
  then show ?thesis by (simp only: numeral_2_eq_2)
qed

lemma nat_bytes_4:
  "nat_bytes 4 n = [of_nat (n div 16777216 mod 256), of_nat (n div 65536 mod 256),
                    of_nat (n div 256 mod 256), of_nat (n mod 256)]"
proof -
  have e: "n div 256 div 256 = n div 65536" "n div 65536 div 256 = n div 16777216"
    by (simp_all add: div_mult2_eq [symmetric])
  have s: "nat_bytes (Suc (Suc (Suc (Suc 0)))) n =
          [of_nat (n div 256 div 256 div 256 mod 256), of_nat (n div 256 div 256 mod 256),
           of_nat (n div 256 mod 256), of_nat (n mod 256)]"
    by (simp only: nat_bytes.simps append.simps)
  have four: "(4::nat) = Suc (Suc (Suc (Suc 0)))" by simp
  show ?thesis unfolding four s e ..
qed

lemma PutUint16_at_2:
  "PutUint16 [a, b, c, d, e, f, g, h] 2 v =
     [a, b, of_nat (unat v div 256), of_nat (unat v mod 256), e, f, g, h]"
proof -
  have "unat v < 65536" using unsigned_less [of v, where 'a = nat] by simp
  then have "unat v div 256 mod 256 = unat v div 256" by simp
  then show ?thesis by (simp add: PutUint16_def nat_bytes_2 Let_def)
qed

lemma PutUint32_at_4:
  "PutUint32 [a, b, c, d, e, f, g, h] 4 v =
     [a, b, c, d, of_nat (unat v div 16777216), of_nat (unat v div 65536 mod 256),
      of_nat (unat v div 256 mod 256), of_nat (unat v mod 256)]"
proof -
  have "unat v < 4294967296" using unsigned_less [of v, where 'a = nat] by simp
  then have "unat v div 16777216 mod 256 = unat v div 16777216" by simp
  then show ?thesis by (simp add: PutUint32_def nat_bytes_4 Let_def)
qed

lemma MUPExtended_Serialize_eq:
  "MUPExtended_Serialize T S x =
     Inr [T, S,
          of_nat (unat (SegmentID2 x) div 256), of_nat (unat (SegmentID2 x) mod 256),
          of_nat (unat (SegmentID4 x) div 16777216), of_nat (unat (SegmentID4 x) div 65536 mod 256),
          of_nat (unat (SegmentID4 x) div 256 mod 256), of_nat (unat (SegmentID4 x) mod 256)]"
  by (simp add: MUPExtended_Serialize_def Let_def replicate_8_zero PutUint16_at_2 PutUint32_at_4)

text \<open>
  Claim C8. Encoding an extended-community record never fails and returns exactly eight
  octets: the type tag, the subtype tag, the 16-bit segment identifier in big-endian order
  and the 32-bit segment identifier in big-endian order. For the identifiers 100 and 200000
  the octets are \<open>[type, subtype, 0, 100, 0, 3, 13, 64]\<close> and the textual rendering is
  \<open>100:200000\<close>.
\<close>

theorem MUPExtended_Serialize_octets:
  "MUPExtended_Serialize T S e =
     Inr [T, S,
          of_nat (unat (SegmentID2 e) div 256), of_nat (unat (SegmentID2 e) mod 256),
          of_nat (unat (SegmentID4 e) div 16777216), of_nat (unat (SegmentID4 e) div 65536 mod 256),
          of_nat (unat (SegmentID4 e) div 256 mod 256), of_nat (unat (SegmentID4 e) mod 256)]
   \<and> MUPExtended_Serialize T S \<lparr>SubType = st, SegmentID2 = 100, SegmentID4 = 200000\<rparr> =
       Inr [T, S, 0, 100, 0, 3, 13, 64]
   \<and> MUPExtended_String \<lparr>SubType = st, SegmentID2 = 100, SegmentID4 = 200000\<rparr> = ''100:200000''"
proof (intro conjI)
  show "MUPExtended_Serialize T S \<lparr>SubType = st, SegmentID2 = 100, SegmentID4 = 200000\<rparr> =
       Inr [T, S, 0, 100, 0, 3, 13, 64]"
    by (simp add: MUPExtended_Serialize_eq)
  show "MUPExtended_String \<lparr>SubType = st, SegmentID2 = 100, SegmentID4 = 200000\<rparr> = ''100:200000''"
    by (simp add: MUPExtended_String_def dec.simps)
qed (rule MUPExtended_Serialize_eq)


lemma length_ge_8:
  assumes "8 \<le> length xs"
  obtains a b c d e f g h r where "xs = a # b # c # d # e # f # g # h # r"
proof -
  have "(8::nat) = Suc (Suc (Suc (Suc (Suc (Suc (Suc (Suc 0)))))))" by simp
  with assms have "Suc (Suc (Suc (Suc (Suc (Suc (Suc (Suc 0))))))) \<le> length xs" by simp
  then show ?thesis using that by (auto simp add: Suc_le_length_iff)
qed

lemma unat_be2: "unat (of_nat (unat (x::byte) * 256 + unat (y::byte)) :: 16 word) = unat x * 256 + unat y"
proof -
  have "unat x * 256 + unat y < 65536" using byte_lt [of x] byte_lt [of y] by simp
  then show ?thesis by (simp only: unat_of_nat) simp
qed

lemma unat_be4:
  "unat (of_nat (((unat (a::byte) * 256 + unat (b::byte)) * 256 + unat (c::byte)) * 256 + unat (d::byte)) :: 32 word)
     = ((unat a * 256 + unat b) * 256 + unat c) * 256 + unat d"
proof -
  have "((unat a * 256 + unat b) * 256 + unat c) * 256 + unat d < 4294967296"
    using byte_lt [of a] byte_lt [of b] byte_lt [of c] byte_lt [of d] by simp
  then show ?thesis by (simp only: unat_of_nat) simp
qed

lemma parseMUPExtended_8:
  "parseMUPExtended T S \<lparr>elems = a # b # c # d # e # f # g # h # r, beyond = ys\<rparr> =
     (if a \<noteq> T then Inl (MalformedAttribute (''ext comm type is not EC_TYPE_MUP: '' @ dec (unat a)))
      else if b \<noteq> S then Inl (MalformedAttribute (''unknown mup subtype: '' @ dec (unat b)))
      else Inr \<lparr>SubType = S, SegmentID2 = of_nat (unat c * 256 + unat d),
                SegmentID4 = of_nat (((unat e * 256 + unat f) * 256 + unat g) * 256 + unat h)\<rparr>)"
  by (simp add: parseMUPExtended_def index_def len_def cap_def slice_range_def Uint16_def
        Uint32_def NewMUPExtended_def)

text \<open>
  Claim C9. On an input of at least eight octets, decoding an extended community returns
  an error exactly when octet 0 is not the type tag or octet 1 is not the subtype tag, and
  it never panics; the error for a wrong subtype carries the offending value; when both
  tags match, the record holds octets 2-3 and octets 4-7 read as big-endian integers.
\<close>

theorem parseMUPExtended_spec:
  assumes "8 \<le> len data"
  shows "((\<exists>msg. parseMUPExtended T S data = Inl (MalformedAttribute msg))
            \<longleftrightarrow> (elems data ! 0 \<noteq> T \<or> elems data ! 1 \<noteq> S))
       \<and> parseMUPExtended T S data \<noteq> Inl Panic
       \<and> (elems data ! 0 = T \<and> elems data ! 1 \<noteq> S \<longrightarrow>
            parseMUPExtended T S data =
              Inl (MalformedAttribute (''unknown mup subtype: '' @ dec (unat (elems data ! 1)))))
       \<and> (elems data ! 0 = T \<and> elems data ! 1 = S \<longrightarrow>
            (\<exists>r. parseMUPExtended T S data = Inr r \<and> SubType r = S
               \<and> unat (SegmentID2 r) = unat (elems data ! 2) * 256 + unat (elems data ! 3)
               \<and> unat (SegmentID4 r) =
                   ((unat (elems data ! 4) * 256 + unat (elems data ! 5)) * 256
                     + unat (elems data ! 6)) * 256 + unat (elems data ! 7)))"
proof -
  from assms obtain a b c d e f g h r where xs: "elems data = a # b # c # d # e # f # g # h # r"
    unfolding len_def by (rule length_ge_8)
  have data: "data = \<lparr>elems = a # b # c # d # e # f # g # h # r, beyond = beyond data\<rparr>"
    using xs by (cases data) simp
  have nths: "elems data ! 0 = a" "elems data ! 1 = b" "elems data ! 2 = c" "elems data ! 3 = d"
    "elems data ! 4 = e" "elems data ! 5 = f" "elems data ! 6 = g" "elems data ! 7 = h"
    unfolding xs by simp_all
  define w2 :: "16 word" where "w2 = of_nat (unat c * 256 + unat d)"
  define w4 :: "32 word" where
    "w4 = of_nat (((unat e * 256 + unat f) * 256 + unat g) * 256 + unat h)"
  have u2: "unat w2 = unat c * 256 + unat d"
    unfolding w2_def by (rule unat_be2)
  have u4: "unat w4 = ((unat e * 256 + unat f) * 256 + unat g) * 256 + unat h"
    unfolding w4_def by (rule unat_be4)
  have p: "parseMUPExtended T S data =
     (if a \<noteq> T then Inl (MalformedAttribute (''ext comm type is not EC_TYPE_MUP: '' @ dec (unat a)))
      else if b \<noteq> S then Inl (MalformedAttribute (''unknown mup subtype: '' @ dec (unat b)))
      else Inr \<lparr>SubType = S, SegmentID2 = w2, SegmentID4 = w4\<rparr>)"
    unfolding w2_def w4_def by (subst data) (rule parseMUPExtended_8)
  show ?thesis
    unfolding nths p using u2 u4 by simp
qed

theorem parseMUPExtended_spec_witness:
  "8 \<le> len \<lparr>elems = [12, 0, 0, 100, 0, 3, 13, 64], beyond = []\<rparr>
   \<and> parseMUPExtended 12 0 \<lparr>elems = [12, 0, 0, 100, 0, 3, 13, 64], beyond = []\<rparr> \<noteq> Inl Panic
   \<and> (\<exists>r. parseMUPExtended 12 0 \<lparr>elems = [12, 0, 0, 100, 0, 3, 13, 64], beyond = []\<rparr> = Inr r
          \<and> SubType r = 0 \<and> unat (SegmentID2 r) = 100 \<and> unat (SegmentID4 r) = 200000)"
proof -
  have h: "8 \<le> len \<lparr>elems = [12, 0, 0, 100, 0, 3, 13, 64], beyond = []\<rparr>"
    by (simp add: len_def)
  show ?thesis
    using h parseMUPExtended_spec [OF h, of 12 0] by simp
qed

text \<open>
  Claim C5. The registry succeeds for exactly the four pairs made of the 3GPP-5G
  architecture and one of the four defined route types, and selects the matching variant;
  for every other pair it fails with an error whose message names the architecture type
  and the route type.
\<close>

theorem getMUPRouteType_spec:
  "((\<exists>r. getMUPRouteType at rt = Inr r) \<longleftrightarrow>
      (at = MUP_ARCH_TYPE_3GPP_5G \<and>
       rt \<in> {MUP_ROUTE_TYPE_INTERWORK_SEGMENT_DISCOVERY, MUP_ROUTE_TYPE_DIRECT_SEGMENT_DISCOVERY,
              MUP_ROUTE_TYPE_TYPE_1_SESSION_TRANSFORMED, MUP_ROUTE_TYPE_TYPE_2_SESSION_TRANSFORMED}))
   \<and> ((\<nexists>r. getMUPRouteType at rt = Inr r) \<longrightarrow>
        getMUPRouteType at rt =
          Inl (MalformedAttribute (''Unknown MUP Architecture and Route type: '' @ dec (unat at)
                                    @ '', '' @ dec (unat rt))))
   \<and> getMUPRouteType MUP_ARCH_TYPE_3GPP_5G MUP_ROUTE_TYPE_INTERWORK_SEGMENT_DISCOVERY
        = Inr (Interwork zero_isd)
   \<and> getMUPRouteType MUP_ARCH_TYPE_3GPP_5G MUP_ROUTE_TYPE_DIRECT_SEGMENT_DISCOVERY
        = Inr (Direct zero_dsd)
   \<and> getMUPRouteType MUP_ARCH_TYPE_3GPP_5G MUP_ROUTE_TYPE_TYPE_1_SESSION_TRANSFORMED
        = Inr (Type1 zero_t1)
   \<and> getMUPRouteType MUP_ARCH_TYPE_3GPP_5G MUP_ROUTE_TYPE_TYPE_2_SESSION_TRANSFORMED
        = Inr (Type2 zero_t2)"
  by (simp add: getMUPRouteType_def unknown_route_def
        MUP_ROUTE_TYPE_INTERWORK_SEGMENT_DISCOVERY_def MUP_ROUTE_TYPE_DIRECT_SEGMENT_DISCOVERY_def
        MUP_ROUTE_TYPE_TYPE_1_SESSION_TRANSFORMED_def MUP_ROUTE_TYPE_TYPE_2_SESSION_TRANSFORMED_def)

theorem getMUPRouteType_spec_witness:
  "(\<nexists>r. getMUPRouteType 2 1 = Inr r)
   \<and> getMUPRouteType 2 1 =
        Inl (MalformedAttribute ''Unknown MUP Architecture and Route type: 2, 1'')
   \<and> getMUPRouteType 1 5 =
        Inl (MalformedAttribute ''Unknown MUP Architecture and Route type: 1, 5'')
   \<and> (\<exists>r. getMUPRouteType 1 3 = Inr r)"
  using getMUPRouteType_spec [of 2 1] getMUPRouteType_spec [of 1 5] getMUPRouteType_spec [of 1 3]
  by (simp add: MUP_ARCH_TYPE_3GPP_5G_def dec.simps
        MUP_ROUTE_TYPE_INTERWORK_SEGMENT_DISCOVERY_def MUP_ROUTE_TYPE_DIRECT_SEGMENT_DISCOVERY_def
        MUP_ROUTE_TYPE_TYPE_1_SESSION_TRANSFORMED_def MUP_ROUTE_TYPE_TYPE_2_SESSION_TRANSFORMED_def)

lemma PutUint32_fresh: "PutUint32 (replicate 4 0) 0 v = nat_bytes 4 (unat v)"
  by (simp add: PutUint32_def Let_def replicate_4_zero nat_bytes_4)

lemma rd_buf_None: "rd_buf None = Inr (replicate 8 0)"
  by (simp add: rd_buf_def)

lemma rd_buf_Some: "rd_buf (Some (RouteDistinguisher w)) = Inr (nat_bytes 8 (unat w))"
  by (simp add: rd_buf_def)

lemma rd_buf_length: "\<exists>b. rd_buf rd = Inr b \<and> length b = 8"
proof (cases rd)
  case None
  then show ?thesis by (simp add: rd_buf_None)
next
  case (Some d)
  then show ?thesis by (cases d) (simp add: rd_buf_Some)
qed

lemma isd_Serialize_eq:
  "rd_buf (isd_RD r) = Inr b \<Longrightarrow>
   isd_Serialize r = Inr (b @ [isd_PrefixLength r] @ AsSlice (Addr_of (isd_Prefix r)))"
  by (simp add: isd_Serialize_def Let_def)

lemma dsd_Serialize_eq:
  "rd_buf (dsd_RD r) = Inr b \<Longrightarrow> dsd_Serialize r = Inr (b @ AsSlice (dsd_Address r))"
  by (simp add: dsd_Serialize_def Let_def)

lemma t1_Serialize_eq:
  "rd_buf (t1_RD r) = Inr b \<Longrightarrow>
   t1_Serialize r =
     Inr (b @ [t1_PrefixLength r] @ AsSlice (t1_Prefix r) @ nat_bytes 4 (unat (t1_TEID r))
            @ [t1_QFI r] @ [t1_EndpointAddressLength r] @ AsSlice (t1_EndpointAddress r))"
  by (simp add: t1_Serialize_def Let_def PutUint32_fresh)

lemma t2_Serialize_eq:
  "rd_buf (t2_RD r) = Inr b \<Longrightarrow>
   t2_Serialize r =
     Inr (b @ [t2_EndpointAddressLength r] @ AsSlice (t2_EndpointAddress r)
            @ nat_bytes 4 (unat (t2_TEID r)))"
  by (simp add: t2_Serialize_def Let_def PutUint32_fresh)

text \<open>
  Claim C10. For each of the four route variants, serializing a value whose distinguisher
  is \<^verbatim>\<open>nil\<close> succeeds and yields eight zero octets followed by the variant's field
  encoding, the same octets that follow the distinguisher's own eight octets when one is
  present.
\<close>

theorem Serialize_nil_distinguisher:
  "isd_Serialize (r1\<lparr>isd_RD := None\<rparr>) =
     Inr (replicate 8 0 @ [isd_PrefixLength r1] @ AsSlice (Addr_of (isd_Prefix r1)))
   \<and> isd_Serialize (r1\<lparr>isd_RD := Some (RouteDistinguisher w)\<rparr>) =
     Inr (nat_bytes 8 (unat w) @ [isd_PrefixLength r1] @ AsSlice (Addr_of (isd_Prefix r1)))
   \<and> dsd_Serialize (r2\<lparr>dsd_RD := None\<rparr>) = Inr (replicate 8 0 @ AsSlice (dsd_Address r2))
   \<and> dsd_Serialize (r2\<lparr>dsd_RD := Some (RouteDistinguisher w)\<rparr>) =
     Inr (nat_bytes 8 (unat w) @ AsSlice (dsd_Address r2))
   \<and> t1_Serialize (r3\<lparr>t1_RD := None\<rparr>) =
     Inr (replicate 8 0 @ [t1_PrefixLength r3] @ AsSlice (t1_Prefix r3)
            @ nat_bytes 4 (unat (t1_TEID r3)) @ [t1_QFI r3] @ [t1_EndpointAddressLength r3]
            @ AsSlice (t1_EndpointAddress r3))
   \<and> t1_Serialize (r3\<lparr>t1_RD := Some (RouteDistinguisher w)\<rparr>) =
     Inr (nat_bytes 8 (unat w) @ [t1_PrefixLength r3] @ AsSlice (t1_Prefix r3)
            @ nat_bytes 4 (unat (t1_TEID r3)) @ [t1_QFI r3] @ [t1_EndpointAddressLength r3]
            @ AsSlice (t1_EndpointAddress r3))
   \<and> t2_Serialize (r4\<lparr>t2_RD := None\<rparr>) =
     Inr (replicate 8 0 @ [t2_EndpointAddressLength r4] @ AsSlice (t2_EndpointAddress r4)
            @ nat_bytes 4 (unat (t2_TEID r4)))
   \<and> t2_Serialize (r4\<lparr>t2_RD := Some (RouteDistinguisher w)\<rparr>) =
     Inr (nat_bytes 8 (unat w) @ [t2_EndpointAddressLength r4] @ AsSlice (t2_EndpointAddress r4)
            @ nat_bytes 4 (unat (t2_TEID r4)))"
  by (simp add: isd_Serialize_eq dsd_Serialize_eq t1_Serialize_eq t2_Serialize_eq
        rd_buf_None rd_buf_Some)

lemma length_AsSlice: "length (AsSlice a) = BitLen a div 8"
  by (cases a) simp_all

lemma route_Serialize_total: "\<exists>t. route_Serialize r = Inr t"
proof (cases r)
  case (Interwork x)
  obtain b where "rd_buf (isd_RD x) = Inr b" using rd_buf_length by blast
  then show ?thesis using Interwork by (simp add: isd_Serialize_eq)
next
  case (Direct x)
  obtain b where "rd_buf (dsd_RD x) = Inr b" using rd_buf_length by blast
  then show ?thesis using Direct by (simp add: dsd_Serialize_eq)
next
  case (Type1 x)
  obtain b where "rd_buf (t1_RD x) = Inr b" using rd_buf_length by blast
  then show ?thesis using Type1 by (simp add: t1_Serialize_eq)
next
  case (Type2 x)
  obtain b where "rd_buf (t2_RD x) = Inr b" using rd_buf_length by blast
  then show ?thesis using Type2 by (simp add: t2_Serialize_eq)
qed

lemma PutUint16_header:
  "(PutUint16 ((replicate 4 0)[0 := a]) 1 v)[3 := l] = a # nat_bytes 2 (unat v) @ [l]"
  by (simp add: PutUint16_def Let_def replicate_4_zero nat_bytes_2)

lemma MUPNLRI_Serialize_eq:
  "RouteTypeData n = Some r \<Longrightarrow> route_Serialize r = Inr t \<Longrightarrow>
   MUPNLRI_Serialize n = Inr (ArchitectureType n # nat_bytes 2 (unat (RouteType n)) @ [Length n] @ t)"
  by (simp add: MUPNLRI_Serialize_def Let_def PutUint16_header del: One_nat_def)


lemma MUPNLRI_DecodeFromBytes_header:
  "MUPNLRI_DecodeFromBytes n0 \<lparr>elems = a # b # c # l # rest, beyond = ys\<rparr> =
     (if length rest < unat l
      then Inl (MalformedAttribute ''Not all MUPNLRI Route type bytes available'')
      else andThen (getMUPRouteType a (of_nat (be_nat [b, c]))) (\<lambda>r.
           andThen (route_DecodeFromBytes r
                      \<lparr>elems = take (unat l) rest, beyond = drop (unat l) (rest @ ys)\<rparr>) (\<lambda>r.
             Inr \<lparr>ArchitectureType = a, RouteType = of_nat (be_nat [b, c]), Length = l,
                  RouteTypeData = Some r\<rparr>)))"
  by (cases n0)
     (simp add: MUPNLRI_DecodeFromBytes_def index_def len_def cap_def slice_range_def
        slice_from_def slice_to_def Uint16_def Let_def del: be_nat.simps)

lemma MUPNLRI_DecodeFromBytes_short:
  "length xs < 4 \<Longrightarrow>
   MUPNLRI_DecodeFromBytes n0 \<lparr>elems = xs, beyond = ys\<rparr> =
     Inl (MalformedAttribute ''Not all MUPNLRI bytes available'')"
  by (simp add: MUPNLRI_DecodeFromBytes_def len_def)

lemma length_ge_4:
  assumes "4 \<le> length xs"
  obtains a b c d r where "xs = a # b # c # d # r"
proof -
  have "(4::nat) = Suc (Suc (Suc (Suc 0)))" by simp
  with assms have "Suc (Suc (Suc (Suc 0))) \<le> length xs" by simp
  then show ?thesis using that by (auto simp add: Suc_le_length_iff)
qed


text \<open>
  Claim C4. Let \<open>b\<close> be the encoding of an envelope whose length field is the length of its
  encoded body. Decoding any proper non-empty prefix of \<open>b\<close> returns a
  \<open>MalformedAttribute\<close> error: the header check fails below four octets, the body-length
  check otherwise. The outcome is the same whatever lies between the prefix's end and the
  capacity of its slice, and it is never a panic.
\<close>

theorem MUPNLRI_DecodeFromBytes_truncated:
  assumes ser: "MUPNLRI_Serialize n = Inr b"
    and inv: "length b = 4 + unat (Length n)"
    and k: "0 < k" "k < length b"
  shows "MUPNLRI_DecodeFromBytes n0 \<lparr>elems = take k b, beyond = ys\<rparr> =
           Inl (MalformedAttribute
                 (if k < 4 then ''Not all MUPNLRI bytes available''
                  else ''Not all MUPNLRI Route type bytes available''))"
proof (cases "k < 4")
  case True
  then have "length (take k b) < 4" by simp
  then show ?thesis using True by (simp add: MUPNLRI_DecodeFromBytes_short)
next
  case False
  from ser obtain r where r: "RouteTypeData n = Some r"
    by (cases "RouteTypeData n") (simp_all add: MUPNLRI_Serialize_def Let_def)
  obtain t where t: "route_Serialize r = Inr t" using route_Serialize_total by blast
  have b: "b = ArchitectureType n # nat_bytes 2 (unat (RouteType n)) @ [Length n] @ t"
    using ser MUPNLRI_Serialize_eq [OF r t] by simp
  obtain x y where xy: "nat_bytes 2 (unat (RouteType n)) = [x, y]"
    by (simp add: nat_bytes_2)
  have b': "b = ArchitectureType n # x # y # Length n # t"
    using b xy by simp
  have lt: "length t = unat (Length n)" using inv b' by simp
  from False have "4 \<le> k" by simp
  then obtain j where "k = 4 + j" using le_Suc_ex by blast
  then have j: "k = Suc (Suc (Suc (Suc j)))" by simp
  have tk: "take k b = ArchitectureType n # x # y # Length n # take j t"
    unfolding b' j by simp
  have "length (take j t) < unat (Length n)"
    using k(2) lt unfolding b' j by simp
  then show ?thesis
    using False unfolding tk by (simp add: MUPNLRI_DecodeFromBytes_header del: be_nat.simps)
qed


lemma nat_bytes_numeral:
  "nat_bytes (numeral k) n = nat_bytes (pred_numeral k) (n div 256) @ [of_nat (n mod 256)]"
proof -
  have "nat_bytes (Suc (pred_numeral k)) n =
          nat_bytes (pred_numeral k) (n div 256) @ [of_nat (n mod 256)]"
    by (rule nat_bytes.simps)
  then show ?thesis by (simp only: numeral_eq_Suc [of k])
qed

lemmas eval_defs =
  NewMUPNLRI_def NewMUPInterworkSegmentDiscoveryRoute_def NewMUPDirectSegmentDiscoveryRoute_def
  NewMUPType1SessionTransformedRoute_def NewMUPType2SessionTransformedRoute_def
  MUP_ARCH_TYPE_3GPP_5G_def MUP_ROUTE_TYPE_INTERWORK_SEGMENT_DISCOVERY_def
  MUP_ROUTE_TYPE_DIRECT_SEGMENT_DISCOVERY_def MUP_ROUTE_TYPE_TYPE_1_SESSION_TRANSFORMED_def
  MUP_ROUTE_TYPE_TYPE_2_SESSION_TRANSFORMED_def
  isd_Len_def dsd_Len_def t1_Len_def t2_Len_def

lemma ser_ex:
  "MUPNLRI_Serialize (NewMUPDirectSegmentDiscoveryRoute (Some (RouteDistinguisher 1)) (Addr4 167772161))
     = Inr [1, 0, 2, 12, 0, 0, 0, 0, 0, 0, 0, 1, 10, 0, 0, 1]"
  by (simp add: eval_defs MUPNLRI_Serialize_eq dsd_Serialize_eq rd_buf_Some nat_bytes_numeral)

lemma len_ex:
  "Length (NewMUPDirectSegmentDiscoveryRoute (Some (RouteDistinguisher 1)) (Addr4 167772161)) = 12"
  by (simp add: eval_defs)

theorem MUPNLRI_DecodeFromBytes_truncated_witness:
  "MUPNLRI_Serialize (NewMUPDirectSegmentDiscoveryRoute (Some (RouteDistinguisher 1)) (Addr4 167772161))
     = Inr [1, 0, 2, 12, 0, 0, 0, 0, 0, 0, 0, 1, 10, 0, 0, 1]
   \<and> length [1, 0, 2, 12, 0, 0, 0, 0, 0, 0, 0, 1, 10, 0, 0, 1 :: byte] =
       4 + unat (Length (NewMUPDirectSegmentDiscoveryRoute (Some (RouteDistinguisher 1)) (Addr4 167772161)))
   \<and> (0::nat) < 7 \<and> 7 < length [1, 0, 2, 12, 0, 0, 0, 0, 0, 0, 0, 1, 10, 0, 0, 1 :: byte]
   \<and> MUPNLRI_DecodeFromBytes (NewMUPNLRI 0 0 None)
        \<lparr>elems = [1, 0, 2, 12, 0, 0, 0], beyond = [0, 0, 0, 0, 1, 10, 0, 0, 1]\<rparr> =
       Inl (MalformedAttribute ''Not all MUPNLRI Route type bytes available'')"
proof -
  let ?n = "NewMUPDirectSegmentDiscoveryRoute (Some (RouteDistinguisher 1)) (Addr4 167772161)"
  let ?b = "[1, 0, 2, 12, 0, 0, 0, 0, 0, 0, 0, 1, 10, 0, 0, 1 :: byte]"
  have h1: "MUPNLRI_Serialize ?n = Inr ?b" by (rule ser_ex)
  have h2: "length ?b = 4 + unat (Length ?n)" by (simp add: len_ex)
  have h3: "(0::nat) < 7" and h4: "7 < length ?b" by simp_all
  show ?thesis
    using h1 h2 h3 h4
      MUPNLRI_DecodeFromBytes_truncated [OF h1 h2 h3 h4, of "NewMUPNLRI 0 0 None" "[0, 0, 0, 0, 1, 10, 0, 0, 1]"]
    by simp
qed


lemma byte_div8_BitLen: "unat ((of_nat (BitLen a) :: byte) div 8) = BitLen a div 8"
  by (cases a) simp_all

lemma byte_div8_BitLen32: "unat ((of_nat (BitLen a) + 32 :: byte) div 8) = BitLen a div 8 + 4"
  by (cases a) simp_all

lemma BitLen_div8_le: "BitLen a div 8 \<le> 16"
  by (cases a) simp_all

lemma unat_byte_small: "n < 256 \<Longrightarrow> unat (of_nat n :: byte) = n"
  by (simp add: unat_of_nat)

lemma route_Serialize_length:
  "\<exists>t. route_Serialize (Interwork x) = Inr t
        \<and> length t = 9 + BitLen (Addr_of (isd_Prefix x)) div 8"
  "\<exists>t. route_Serialize (Direct y) = Inr t \<and> length t = 8 + BitLen (dsd_Address y) div 8"
  "\<exists>t. route_Serialize (Type1 z) = Inr t
        \<and> length t = 15 + BitLen (t1_Prefix z) div 8 + BitLen (t1_EndpointAddress z) div 8"
  "\<exists>t. route_Serialize (Type2 u) = Inr t
        \<and> length t = 13 + BitLen (t2_EndpointAddress u) div 8"
proof -
  obtain b1 where b1: "rd_buf (isd_RD x) = Inr b1" "length b1 = 8" using rd_buf_length by blast
  show "\<exists>t. route_Serialize (Interwork x) = Inr t
        \<and> length t = 9 + BitLen (Addr_of (isd_Prefix x)) div 8"
    using b1 by (simp add: isd_Serialize_eq length_AsSlice)
  obtain b2 where b2: "rd_buf (dsd_RD y) = Inr b2" "length b2 = 8" using rd_buf_length by blast
  show "\<exists>t. route_Serialize (Direct y) = Inr t \<and> length t = 8 + BitLen (dsd_Address y) div 8"
    using b2 by (simp add: dsd_Serialize_eq length_AsSlice)
  obtain b3 where b3: "rd_buf (t1_RD z) = Inr b3" "length b3 = 8" using rd_buf_length by blast
  show "\<exists>t. route_Serialize (Type1 z) = Inr t
        \<and> length t = 15 + BitLen (t1_Prefix z) div 8 + BitLen (t1_EndpointAddress z) div 8"
    using b3 by (simp add: t1_Serialize_eq length_AsSlice)
  obtain b4 where b4: "rd_buf (t2_RD u) = Inr b4" "length b4 = 8" using rd_buf_length by blast
  show "\<exists>t. route_Serialize (Type2 u) = Inr t
        \<and> length t = 13 + BitLen (t2_EndpointAddress u) div 8"
    using b4 by (simp add: t2_Serialize_eq length_AsSlice)
qed

lemma constructed_Length:
  assumes "n = NewMUPInterworkSegmentDiscoveryRoute rd pfx
         \<or> n = NewMUPDirectSegmentDiscoveryRoute rd a
         \<or> n = NewMUPType1SessionTransformedRoute rd p teid qfi ea
         \<or> n = NewMUPType2SessionTransformedRoute rd ea teid"
  shows "\<exists>r t. RouteTypeData n = Some r \<and> route_Serialize r = Inr t
               \<and> unat (Length n) = length t"
proof -
  consider (i) "n = NewMUPInterworkSegmentDiscoveryRoute rd pfx"
    | (d) "n = NewMUPDirectSegmentDiscoveryRoute rd a"
    | (t1) "n = NewMUPType1SessionTransformedRoute rd p teid qfi ea"
    | (t2) "n = NewMUPType2SessionTransformedRoute rd ea teid"
    using assms by blast
  then show ?thesis
  proof cases
    case i
    let ?x = "\<lparr>isd_RD = rd, isd_PrefixLength = of_int (Bits pfx), isd_Prefix = pfx\<rparr>"
    obtain t where t: "route_Serialize (Interwork ?x) = Inr t"
      "length t = 9 + BitLen (Addr_of (isd_Prefix ?x)) div 8"
      using route_Serialize_length(1) by blast
    have "9 + BitLen (Addr_of pfx) div 8 < 256" using BitLen_div8_le [of "Addr_of pfx"] by simp
    then have "unat (of_nat (9 + BitLen (Addr_of pfx) div 8) :: byte) = length t"
      using t(2) by (simp only: unat_byte_small) simp
    then show ?thesis using t(1) unfolding i
      by (simp add: NewMUPInterworkSegmentDiscoveryRoute_def NewMUPNLRI_def isd_Len_def
            del: of_nat_add)
  next
    case d
    let ?y = "\<lparr>dsd_RD = rd, dsd_Address = a\<rparr>"
    obtain t where t: "route_Serialize (Direct ?y) = Inr t"
      "length t = 8 + BitLen (dsd_Address ?y) div 8"
      using route_Serialize_length(2) by blast
    have "8 + BitLen a div 8 < 256" using BitLen_div8_le [of a] by simp
    then have "unat (of_nat (8 + BitLen a div 8) :: byte) = length t"
      using t(2) by (simp only: unat_byte_small) simp
    then show ?thesis using t(1) unfolding d
      by (simp add: NewMUPDirectSegmentDiscoveryRoute_def NewMUPNLRI_def dsd_Len_def
            del: of_nat_add)
  next
    case t1
    let ?z = "\<lparr>t1_RD = rd, t1_PrefixLength = of_nat (BitLen p), t1_Prefix = p,
               t1_TEID = teid, t1_QFI = qfi,
               t1_EndpointAddressLength = of_nat (BitLen ea), t1_EndpointAddress = ea\<rparr>"
    obtain t where t: "route_Serialize (Type1 ?z) = Inr t"
      "length t = 15 + BitLen (t1_Prefix ?z) div 8 + BitLen (t1_EndpointAddress ?z) div 8"
      using route_Serialize_length(3) by blast
    have "15 + BitLen p div 8 + BitLen ea div 8 < 256"
      using BitLen_div8_le [of p] BitLen_div8_le [of ea] by simp
    then have "unat (of_nat (15 + BitLen p div 8 + BitLen ea div 8) :: byte) = length t"
      using t(2) by (simp only: unat_byte_small) simp
    then show ?thesis using t(1) unfolding t1
      by (simp add: NewMUPType1SessionTransformedRoute_def NewMUPNLRI_def t1_Len_def
            byte_div8_BitLen del: of_nat_add)
  next
    case t2
    let ?u = "\<lparr>t2_RD = rd, t2_EndpointAddressLength = of_nat (BitLen ea) + 32,
               t2_EndpointAddress = ea, t2_TEID = teid\<rparr>"
    obtain t where t: "route_Serialize (Type2 ?u) = Inr t"
      "length t = 13 + BitLen (t2_EndpointAddress ?u) div 8"
      using route_Serialize_length(4) by blast
    have "9 + (BitLen ea div 8 + 4) < 256" using BitLen_div8_le [of ea] by simp
    then have "unat (of_nat (9 + (BitLen ea div 8 + 4)) :: byte) = length t"
      using t(2) by (simp only: unat_byte_small) simp
    then show ?thesis using t(1) unfolding t2
      by (simp add: NewMUPType2SessionTransformedRoute_def NewMUPNLRI_def t2_Len_def
            byte_div8_BitLen32 del: of_nat_add)
  qed
qed


text \<open>
  Claim C2, amended. Encoding an envelope writes a four-octet header whose length octet is
  the envelope's stored \<open>Length\<close> field, followed by the body's own encoding. For an
  envelope built by one of the four route constructors the emitted length octet equals
  the encoded length of the body.
\<close>

theorem MUPNLRI_Serialize_length_octet:
  "(MUPNLRI_Serialize n = Inr bs \<longrightarrow>
      4 \<le> length bs \<and> bs ! 3 = Length n
      \<and> (\<exists>r. RouteTypeData n = Some r \<and> route_Serialize r = Inr (drop 4 bs)))
   \<and> (n = NewMUPInterworkSegmentDiscoveryRoute rd pfx
        \<or> n = NewMUPDirectSegmentDiscoveryRoute rd a
        \<or> n = NewMUPType1SessionTransformedRoute rd p teid qfi ea
        \<or> n = NewMUPType2SessionTransformedRoute rd ea teid \<longrightarrow>
      (\<exists>bs'. MUPNLRI_Serialize n = Inr bs' \<and> unat (bs' ! 3) = length bs' - 4))"
proof (intro conjI impI)
  assume ser: "MUPNLRI_Serialize n = Inr bs"
  then obtain r where r: "RouteTypeData n = Some r"
    by (cases "RouteTypeData n") (simp_all add: MUPNLRI_Serialize_def Let_def)
  obtain t where t: "route_Serialize r = Inr t" using route_Serialize_total by blast
  obtain x y where xy: "nat_bytes 2 (unat (RouteType n)) = [x, y]"
    by (simp add: nat_bytes_2)
  have bs: "bs = ArchitectureType n # x # y # Length n # t"
    using ser MUPNLRI_Serialize_eq [OF r t] xy by simp
  show "4 \<le> length bs" unfolding bs by simp
  show "bs ! 3 = Length n" unfolding bs by simp
  show "\<exists>r. RouteTypeData n = Some r \<and> route_Serialize r = Inr (drop 4 bs)"
    using r t unfolding bs by simp
next
  assume "n = NewMUPInterworkSegmentDiscoveryRoute rd pfx
        \<or> n = NewMUPDirectSegmentDiscoveryRoute rd a
        \<or> n = NewMUPType1SessionTransformedRoute rd p teid qfi ea
        \<or> n = NewMUPType2SessionTransformedRoute rd ea teid"
  then obtain r t where rt: "RouteTypeData n = Some r" "route_Serialize r = Inr t"
    "unat (Length n) = length t"
    using constructed_Length by blast
  obtain x y where xy: "nat_bytes 2 (unat (RouteType n)) = [x, y]"
    by (simp add: nat_bytes_2)
  have "MUPNLRI_Serialize n = Inr (ArchitectureType n # x # y # Length n # t)"
    using MUPNLRI_Serialize_eq [OF rt(1,2)] xy by simp
  then show "\<exists>bs'. MUPNLRI_Serialize n = Inr bs' \<and> unat (bs' ! 3) = length bs' - 4"
    using rt(3) by simp
qed

theorem MUPNLRI_Serialize_length_octet_witness:
  "MUPNLRI_Serialize (NewMUPDirectSegmentDiscoveryRoute (Some (RouteDistinguisher 1)) (Addr4 167772161))
     = Inr [1, 0, 2, 12, 0, 0, 0, 0, 0, 0, 0, 1, 10, 0, 0, 1]
   \<and> [1, 0, 2, 12, 0, 0, 0, 0, 0, 0, 0, 1, 10, 0, 0, 1 :: byte] ! 3
       = Length (NewMUPDirectSegmentDiscoveryRoute (Some (RouteDistinguisher 1)) (Addr4 167772161))
   \<and> (\<exists>bs'. MUPNLRI_Serialize
               (NewMUPDirectSegmentDiscoveryRoute (Some (RouteDistinguisher 1)) (Addr4 167772161))
             = Inr bs' \<and> unat (bs' ! 3) = length bs' - 4)"
  using MUPNLRI_Serialize_length_octet
    [of "NewMUPDirectSegmentDiscoveryRoute (Some (RouteDistinguisher 1)) (Addr4 167772161)"
        "[1, 0, 2, 12, 0, 0, 0, 0, 0, 0, 0, 1, 10, 0, 0, 1]"
        "Some (RouteDistinguisher 1)" zero_Prefix "Addr4 167772161"]
    ser_ex
  by simp

text \<open>
  Claim C2 as first stated fails: two envelopes that differ only in the stored length field
  encode to different octets, and the emitted length octet of the first is 0 although its
  body is 12 octets long.
\<close>

theorem MUPNLRI_Serialize_stale_length_counterexample:
  "MUPNLRI_Serialize \<lparr>ArchitectureType = 1, RouteType = 2, Length = 0,
       RouteTypeData = Some (Direct \<lparr>dsd_RD = None, dsd_Address = Addr4 167772161\<rparr>)\<rparr>
     = Inr [1, 0, 2, 0, 0, 0, 0, 0, 0, 0, 0, 0, 10, 0, 0, 1]
   \<and> MUPNLRI_Serialize \<lparr>ArchitectureType = 1, RouteType = 2, Length = 12,
       RouteTypeData = Some (Direct \<lparr>dsd_RD = None, dsd_Address = Addr4 167772161\<rparr>)\<rparr>
     = Inr [1, 0, 2, 12, 0, 0, 0, 0, 0, 0, 0, 0, 10, 0, 0, 1]
   \<and> dsd_Len \<lparr>dsd_RD = None, dsd_Address = Addr4 167772161\<rparr> = 12
   \<and> MUPNLRI_Serialize \<lparr>ArchitectureType = 1, RouteType = 2, Length = 0,
       RouteTypeData = Some (Direct \<lparr>dsd_RD = None, dsd_Address = Addr4 167772161\<rparr>)\<rparr>
     \<noteq> MUPNLRI_Serialize \<lparr>ArchitectureType = 1, RouteType = 2, Length = 12,
       RouteTypeData = Some (Direct \<lparr>dsd_RD = None, dsd_Address = Addr4 167772161\<rparr>)\<rparr>"
  by (simp add: MUPNLRI_Serialize_eq dsd_Serialize_eq rd_buf_None nat_bytes_numeral
        replicate_8_zero dsd_Len_def)

lemma slice_range_at:
  assumes "elems s @ beyond s = pre @ mid @ post" "length pre = a" "length mid = k"
  shows "slice_range s a (a + k) = Inr \<lparr>elems = mid, beyond = post\<rparr>"
proof -
  have "length (elems s @ beyond s) = length (pre @ mid @ post)"
    using assms(1) by simp
  then have "a + k \<le> cap s"
    using assms(2,3) by (simp add: cap_def)
  then show ?thesis using assms by (simp add: slice_range_def)
qed

lemma index_at:
  assumes "elems s = pre @ x # post" "length pre = a"
  shows "index s a = Inr x"
  using assms by (simp add: index_def len_def nth_append)

lemma slice_range_Inr:
  assumes "slice_range s a b = Inr s'"
  shows "a \<le> b" "b \<le> cap s" "elems s' = take (b - a) (drop a (elems s @ beyond s))"
    "len s' = b - a"
  using assms by (auto simp add: slice_range_def cap_def len_def split: if_splits)

lemma GetRouteDistinguisher_at:
  "length d = 8 \<Longrightarrow>
   GetRouteDistinguisher \<lparr>elems = d @ rest, beyond = ys\<rparr>
     = Inr (RouteDistinguisher (of_nat (be_nat d)))"
  by (simp add: GetRouteDistinguisher_def slice_range_def cap_def del: be_nat.simps)

lemma GetRouteDistinguisher_short:
  "cap data < 8 \<Longrightarrow> GetRouteDistinguisher data = Inl Panic"
  by (simp add: GetRouteDistinguisher_def slice_range_def)

lemma AddrFromSlice_4: "length x = 4 \<Longrightarrow> AddrFromSlice x = Some (Addr4 (of_nat (be_nat x)))"
  by (simp add: AddrFromSlice_def del: be_nat.simps)

lemma AddrFromSlice_16:
  "length x = 16 \<Longrightarrow> AddrFromSlice x = Some (Addr6 (of_nat (be_nat x)) [])"
  by (simp add: AddrFromSlice_def del: be_nat.simps)

lemma t2_finish_short:
  assumes "teidLen < 4"
  shows "t2_finish r data ea p teidLen = Inl Panic"
proof (cases "slice_range data p (p + teidLen)")
  case (Inl e)
  then have "e = Panic" by (simp add: slice_range_def split: if_splits)
  with Inl show ?thesis by (simp add: t2_finish_def Let_def)
next
  case (Inr s)
  then have "len s = teidLen" using slice_range_Inr(4) [OF Inr] by simp
  with assms have "Uint32 s = Inl Panic" by (simp add: Uint32_def)
  with Inr show ?thesis by (simp add: t2_finish_def Let_def)
qed

lemma band_4: "32 \<le> el \<Longrightarrow> el < 64 \<Longrightarrow> unat (el::byte) div 8 - 4 < 4"
  by (simp add: word_less_nat_alt)

lemma band_16: "128 \<le> el \<Longrightarrow> el < 160 \<Longrightarrow> unat (el::byte) div 8 - 16 < 4"
  by (simp add: word_less_nat_alt)

text \<open>
  Claim C1. The claim expects a Type-2 body whose declared endpoint-address length is 48
  (or 136) to decode into a 4-octet (16-octet) address followed by a 2-octet (3-octet)
  TEID. The decoder does cut a slice of \<open>teidLen\<close> octets, but hands it to \<open>Uint32\<close>, which
  needs four: for every declared length inside a band whose TEID width is below four
  octets, decoding panics, whatever follows the length octet. The body of the claim,
  distinguisher, 48, 10.0.0.1, 0 0 0 42, is one of them.
\<close>

theorem t2_DecodeFromBytes_short_TEID_panics:
  assumes d: "length d = 8"
    and el: "(32 \<le> el \<and> el < 64) \<or> (128 \<le> el \<and> el < 160)"
  shows "t2_DecodeFromBytes r \<lparr>elems = d @ el # rest, beyond = ys\<rparr> = Inl Panic"
proof -
  let ?data = "\<lparr>elems = d @ el # rest, beyond = ys\<rparr>"
  have ix: "index ?data 8 = Inr el"
    by (rule index_at [where pre = d and post = rest]) (simp_all add: d)
  have pan: "andThen (slice_range ?data 9 (9 + k)) (\<lambda>s.
               case AddrFromSlice (elems s) of
                 None \<Rightarrow> f s
               | Some ea \<Rightarrow> Inl Panic) = Inl Panic"
    if "k = 4 \<or> k = 16" for k f
  proof (cases "slice_range ?data 9 (9 + k)")
    case (Inl e)
    then have "e = Panic" by (simp add: slice_range_def split: if_splits)
    with Inl show ?thesis by simp
  next
    case (Inr s)
    have "length (elems s) = k" using slice_range_Inr(4) [OF Inr] by (simp add: len_def)
    with that have "\<exists>a. AddrFromSlice (elems s) = Some a"
      by (auto simp add: AddrFromSlice_4 AddrFromSlice_16)
    with Inr show ?thesis by auto
  qed
  from el show ?thesis
  proof
    assume b: "32 \<le> el \<and> el < 64"
    then have "el \<le> 64" by (simp add: order.strict_implies_order)
    moreover have "t2_finish r' ?data ea p (unat el div 8 - 4) = Inl Panic" for r' ea p
      using b by (intro t2_finish_short band_4) simp_all
    ultimately show ?thesis
      using b pan [of 4]
      by (simp add: t2_DecodeFromBytes_def GetRouteDistinguisher_at d ix len_def Let_def
            del: be_nat.simps cong: option.case_cong)
  next
    assume b: "128 \<le> el \<and> el < 160"
    then have "el \<le> 160" "\<not> el \<le> 64" by (simp_all add: word_le_nat_alt word_less_nat_alt)
    moreover have "t2_finish r' ?data ea p (unat el div 8 - 16) = Inl Panic" for r' ea p
      using b by (intro t2_finish_short band_16) simp_all
    ultimately show ?thesis
      using b pan [of 16]
      by (simp add: t2_DecodeFromBytes_def GetRouteDistinguisher_at d ix len_def Let_def
            del: be_nat.simps cong: option.case_cong)
  qed
qed


theorem t2_DecodeFromBytes_short_TEID_panics_witness:
  "length [0, 0, 0, 0, 0, 0, 0, 1 :: byte] = 8
   \<and> ((32 \<le> (48::byte) \<and> (48::byte) < 64) \<or> (128 \<le> (48::byte) \<and> (48::byte) < 160))
   \<and> t2_DecodeFromBytes zero_t2
        \<lparr>elems = [0, 0, 0, 0, 0, 0, 0, 1] @ 48 # [10, 0, 0, 1, 0, 0, 0, 42], beyond = []\<rparr>
       = Inl Panic"
proof -
  have h1: "length [0, 0, 0, 0, 0, 0, 0, 1 :: byte] = 8" by simp
  have h2: "(32 \<le> (48::byte) \<and> (48::byte) < 64) \<or> (128 \<le> (48::byte) \<and> (48::byte) < 160)"
    by simp
  show ?thesis
    using h1 h2
      t2_DecodeFromBytes_short_TEID_panics [OF h1 h2, of zero_t2 "[10, 0, 0, 1, 0, 0, 0, 42]" "[]"]
    by simp
qed

lemma div8_32: "unat ((32::byte) div 8) = 4"
  by (simp add: unat_div)

lemma div8_128: "unat ((128::byte) div 8) = 16"
  by (simp add: unat_div)

lemma dsd_DecodeFromBytes_short: "cap data < 8 \<Longrightarrow> dsd_DecodeFromBytes r data = Inl Panic"
  by (simp add: dsd_DecodeFromBytes_def GetRouteDistinguisher_short)

lemma dsd_DecodeFromBytes_4:
  assumes "length d = 8" "length a = 4"
  shows "dsd_DecodeFromBytes r \<lparr>elems = d @ a, beyond = ys\<rparr> =
           Inr \<lparr>dsd_RD = Some (RouteDistinguisher (of_nat (be_nat d))),
                dsd_Address = Addr4 (of_nat (be_nat a))\<rparr>"
proof -
  let ?data = "\<lparr>elems = d @ a, beyond = ys\<rparr>"
  have rd: "GetRouteDistinguisher ?data = Inr (RouteDistinguisher (of_nat (be_nat d)))"
    using assms(1) by (rule GetRouteDistinguisher_at)
  have sl: "slice_range ?data 8 (8 + 4) = Inr \<lparr>elems = a, beyond = ys\<rparr>"
    by (rule slice_range_at [where pre = d]) (simp_all add: assms)
  show ?thesis
    using sl assms
    by (cases r) (simp add: dsd_DecodeFromBytes_def rd len_def Let_def AddrFromSlice_4
          del: be_nat.simps)
qed

lemma dsd_DecodeFromBytes_16:
  assumes "length d = 8" "length a = 16"
  shows "dsd_DecodeFromBytes r \<lparr>elems = d @ a, beyond = ys\<rparr> =
           Inr \<lparr>dsd_RD = Some (RouteDistinguisher (of_nat (be_nat d))),
                dsd_Address = Addr6 (of_nat (be_nat a)) []\<rparr>"
proof -
  let ?data = "\<lparr>elems = d @ a, beyond = ys\<rparr>"
  have rd: "GetRouteDistinguisher ?data = Inr (RouteDistinguisher (of_nat (be_nat d)))"
    using assms(1) by (rule GetRouteDistinguisher_at)
  have sl: "slice_range ?data 8 (8 + 16) = Inr \<lparr>elems = a, beyond = ys\<rparr>"
    by (rule slice_range_at [where pre = d]) (simp_all add: assms)
  show ?thesis
    using sl assms
    by (cases r) (simp add: dsd_DecodeFromBytes_def rd len_def Let_def AddrFromSlice_16
          del: be_nat.simps)
qed

lemma dsd_DecodeFromBytes_family:
  assumes "length d = 8"
  shows "length a = 4 \<Longrightarrow>
           \<exists>r'. dsd_DecodeFromBytes r \<lparr>elems = d @ a, beyond = ys\<rparr> = Inr r' \<and> dsd_AFI r' = AFI_IP"
    and "length a = 16 \<Longrightarrow>
           \<exists>r'. dsd_DecodeFromBytes r \<lparr>elems = d @ a, beyond = ys\<rparr> = Inr r' \<and> dsd_AFI r' = AFI_IP6"
  using assms
  by (simp_all add: dsd_DecodeFromBytes_4 dsd_DecodeFromBytes_16 dsd_AFI_def del: be_nat.simps)

lemma dsd_DecodeFromBytes_other:
  assumes "8 \<le> cap data" "len data \<noteq> 12" "len data \<noteq> 24"
  shows "dsd_DecodeFromBytes r data =
           Inl (MalformedAttribute ''invalid Direct Segment Discovery Route length'')"
proof -
  obtain rd where "GetRouteDistinguisher data = Inr rd"
    using assms(1) by (simp add: GetRouteDistinguisher_def slice_range_def)
  then show ?thesis using assms(2,3) by (simp add: dsd_DecodeFromBytes_def Let_def)
qed

lemma dsd_DecodeFromBytes_Inr:
  assumes "dsd_DecodeFromBytes r data = Inr r'"
  shows "len data = 12 \<or> len data = 24"
proof (rule ccontr)
  assume n: "\<not> (len data = 12 \<or> len data = 24)"
  show False
  proof (cases "8 \<le> cap data")
    case True
    with n assms show False by (simp add: dsd_DecodeFromBytes_other)
  next
    case False
    with assms show False by (simp add: dsd_DecodeFromBytes_short)
  qed
qed

text \<open>
  Claim C7. A Direct Segment Discovery body of 12 octets decodes to an IPv4 address and one
  of 24 octets to an IPv6 address (\<open>dsd_DecodeFromBytes_family\<close>),
  decoding succeeds for no other length (\<open>dsd_DecodeFromBytes_Inr\<close>), and a body of any
  other length that holds a distinguisher is rejected with \<open>MalformedAttribute\<close>
  (\<open>dsd_DecodeFromBytes_other\<close>). The distinguisher is taken before the length is checked,
  though: on the empty body, also when it arrives inside an envelope, decoding panics
  where the claim expects \<open>MalformedAttribute\<close>.
\<close>

theorem dsd_DecodeFromBytes_empty_body_panics:
  "dsd_DecodeFromBytes zero_dsd \<lparr>elems = [], beyond = []\<rparr> = Inl Panic
   \<and> MUPNLRI_DecodeFromBytes (NewMUPNLRI 0 0 None) \<lparr>elems = [1, 0, 2, 0], beyond = []\<rparr>
       = Inl Panic"
proof -
  have "dsd_DecodeFromBytes zero_dsd \<lparr>elems = [], beyond = []\<rparr> = Inl Panic"
    by (rule dsd_DecodeFromBytes_short) (simp add: cap_def)
  moreover have "getMUPRouteType 1 (of_nat (be_nat [0, 2])) = Inr (Direct zero_dsd)"
    by (simp add: getMUPRouteType_def MUP_ARCH_TYPE_3GPP_5G_def
          MUP_ROUTE_TYPE_INTERWORK_SEGMENT_DISCOVERY_def MUP_ROUTE_TYPE_DIRECT_SEGMENT_DISCOVERY_def)
  ultimately show ?thesis
    by (simp add: MUPNLRI_DecodeFromBytes_header del: be_nat.simps)
qed


lemma div8_cases: "pl = 32 \<or> pl = 128 \<Longrightarrow> unat ((pl::byte) div 8) = 4 \<or> unat (pl div 8) = 16"
  using div8_32 div8_128 by auto

lemma AddrFromSlice_AsSlice_ex:
  assumes "length x = 4 \<or> length x = 16"
  shows "\<exists>a. AddrFromSlice x = Some a \<and> AsSlice a = x \<and> a \<noteq> AddrZero
             \<and> BitLen a = 8 * length x \<and> Zone a = []"
proof -
  from assms show ?thesis
  proof
    assume l: "length x = 4"
    have "be_nat x < 4294967296" using be_nat_lt [of x] l by simp
    then have "unat (of_nat (be_nat x) :: 32 word) = be_nat x"
      by (simp add: unat_of_nat del: be_nat.simps)
    then have "AsSlice (Addr4 (of_nat (be_nat x))) = x"
      using nat_bytes_be_nat [of x] l by (simp del: be_nat.simps)
    then show ?thesis using l by (simp add: AddrFromSlice_4 del: be_nat.simps)
  next
    assume l: "length x = 16"
    have "be_nat x < 340282366920938463463374607431768211456" using be_nat_lt [of x] l by simp
    then have "unat (of_nat (be_nat x) :: 128 word) = be_nat x"
      by (simp add: unat_of_nat del: be_nat.simps)
    then have "AsSlice (Addr6 (of_nat (be_nat x)) []) = x"
      using nat_bytes_be_nat [of x] l by (simp del: be_nat.simps)
    then show ?thesis using l by (simp add: AddrFromSlice_16 del: be_nat.simps)
  qed
qed

lemma Uint32_4:
  "length t = 4 \<Longrightarrow> Uint32 \<lparr>elems = t, beyond = zs\<rparr> = Inr (of_nat (be_nat t))"
  by (simp add: Uint32_def len_def del: be_nat.simps)

lemma nat_bytes_Uint32: "length t = 4 \<Longrightarrow> nat_bytes 4 (unat (of_nat (be_nat t) :: 32 word)) = t"
proof -
  assume l: "length t = 4"
  have "be_nat t < 4294967296" using be_nat_lt [of t] l by simp
  then have "unat (of_nat (be_nat t) :: 32 word) = be_nat t"
    by (simp add: unat_of_nat del: be_nat.simps)
  then show ?thesis using nat_bytes_be_nat [of t] l by (simp del: be_nat.simps)
qed

lemma t1_DecodeFromBytes_upto:
  assumes d: "length d = 8"
    and pl: "pl = 32 \<or> pl = 128"
    and pfx: "length pfx = unat pl div 8"
    and teid: "length teid = 4"
    and data: "elems data = d @ pl # pfx @ teid @ qfi # el # rest"
  shows "\<exists>a. AddrFromSlice pfx = Some a \<and> AsSlice a = pfx \<and>
     t1_DecodeFromBytes r data =
      (let r = r\<lparr>t1_RD := Some (RouteDistinguisher (of_nat (be_nat d))), t1_PrefixLength := pl,
                  t1_Prefix := a, t1_TEID := of_nat (be_nat teid), t1_QFI := qfi,
                  t1_EndpointAddressLength := el\<rparr>;
           p = 15 + length pfx
       in if el = 32 \<or> el = 128 then
            andThen (slice_range data p (p + unat (el div 8))) (\<lambda>s.
              case AddrFromSlice (elems s) of
                None \<Rightarrow> Inl (MalformedAttribute (''Invalid Endpoint Address: '' @ hex (elems s)))
              | Some ea \<Rightarrow> Inr (r\<lparr>t1_EndpointAddress := ea\<rparr>))
          else Inl (MalformedAttribute (''Invalid Endpoint Address length: '' @ dec (unat el))))"
proof -
  have k: "unat (pl div 8) = length pfx" using pfx by (simp add: unat_div)
  have k416: "length pfx = 4 \<or> length pfx = 16" using pl pfx by auto
  obtain a where a: "AddrFromSlice pfx = Some a" "AsSlice a = pfx"
    using AddrFromSlice_AsSlice_ex [OF k416] by blast
  have all: "elems data @ beyond data = d @ pl # pfx @ teid @ qfi # el # rest @ beyond data"
    using data by simp
  have rd: "GetRouteDistinguisher data = Inr (RouteDistinguisher (of_nat (be_nat d)))"
    using GetRouteDistinguisher_at [OF d, of "pl # pfx @ teid @ qfi # el # rest" "beyond data"] data
    by (cases data) simp
  have ln: "\<not> len data < 8" using data d by (simp add: len_def)
  have i8: "index data 8 = Inr pl"
    by (rule index_at [where pre = d, OF data]) (simp add: d)
  have s1: "slice_range data (8 + 1) (8 + 1 + length pfx)
              = Inr \<lparr>elems = pfx, beyond = teid @ qfi # el # rest @ beyond data\<rparr>"
    by (rule slice_range_at [where pre = "d @ [pl]"]) (simp_all add: d all)
  have s2: "slice_range data (8 + 1 + length pfx) (8 + 1 + length pfx + 4)
              = Inr \<lparr>elems = teid, beyond = qfi # el # rest @ beyond data\<rparr>"
    by (rule slice_range_at [where pre = "d @ pl # pfx"]) (simp_all add: d teid all)
  have i1: "index data (8 + 1 + length pfx + 4) = Inr qfi"
    by (rule index_at [where pre = "d @ pl # pfx @ teid" and post = "el # rest"])
       (simp_all add: d teid data)
  have i2: "index data (8 + 1 + length pfx + 4 + 1) = Inr el"
    by (rule index_at [where pre = "d @ pl # pfx @ teid @ [qfi]" and post = rest])
       (simp_all add: d teid data)
  have p: "8 + 1 + length pfx + 4 + 1 + 1 = 15 + length pfx" by simp
  have "t1_DecodeFromBytes r data =
      (let r = r\<lparr>t1_RD := Some (RouteDistinguisher (of_nat (be_nat d))), t1_PrefixLength := pl,
                  t1_Prefix := a, t1_TEID := of_nat (be_nat teid), t1_QFI := qfi,
                  t1_EndpointAddressLength := el\<rparr>;
           p = 15 + length pfx
       in if el = 32 \<or> el = 128 then
            andThen (slice_range data p (p + unat (el div 8))) (\<lambda>s.
              case AddrFromSlice (elems s) of
                None \<Rightarrow> Inl (MalformedAttribute (''Invalid Endpoint Address: '' @ hex (elems s)))
              | Some ea \<Rightarrow> Inr (r\<lparr>t1_EndpointAddress := ea\<rparr>))
          else Inl (MalformedAttribute (''Invalid Endpoint Address length: '' @ dec (unat el))))"
    unfolding t1_DecodeFromBytes_def rd andThen_Inr Let_def rd_Len.simps
    using pl ln
    by (simp only: if_False i8 andThen_Inr k s1 s2 i1 i2 a Uint32_4 [OF teid] p
          slice.simps option.case if_True add_Suc_right)
  with a show ?thesis by blast
qed


text \<open>
  Claim C6. In a Type-1 body, a declared prefix length other than 32 and 128 is rejected
  with \<open>MalformedAttribute\<close>, and so is a declared endpoint-address length other than 32 and
  128; when both are 32 or 128, decoding reads, after the distinguisher, the prefix length,
  the prefix address, the four TEID octets in big-endian order, the QFI octet, the
  endpoint-address length and the endpoint address, in that order.
\<close>

theorem t1_DecodeFromBytes_spec:
  assumes d: "length d = 8"
  shows "(pl \<noteq> 32 \<and> pl \<noteq> 128 \<longrightarrow>
            t1_DecodeFromBytes r \<lparr>elems = d @ pl # rest, beyond = ys\<rparr> =
              Inl (MalformedAttribute (''Invalid Prefix length: '' @ dec (unat pl))))
       \<and> ((pl = 32 \<or> pl = 128) \<and> length pfx = unat pl div 8 \<and> length teid = 4
            \<and> el \<noteq> 32 \<and> el \<noteq> 128 \<longrightarrow>
            t1_DecodeFromBytes r
                \<lparr>elems = d @ pl # pfx @ teid @ qfi # el # rest, beyond = ys\<rparr> =
              Inl (MalformedAttribute (''Invalid Endpoint Address length: '' @ dec (unat el))))
       \<and> ((pl = 32 \<or> pl = 128) \<and> length pfx = unat pl div 8 \<and> length teid = 4
            \<and> (el = 32 \<or> el = 128) \<and> length ea = unat el div 8 \<longrightarrow>
            (\<exists>r'. t1_DecodeFromBytes r
                     \<lparr>elems = d @ pl # pfx @ teid @ qfi # el # ea @ rest, beyond = ys\<rparr> = Inr r'
                 \<and> t1_PrefixLength r' = pl \<and> AsSlice (t1_Prefix r') = pfx
                 \<and> nat_bytes 4 (unat (t1_TEID r')) = teid \<and> t1_QFI r' = qfi
                 \<and> t1_EndpointAddressLength r' = el \<and> AsSlice (t1_EndpointAddress r') = ea))"
proof (intro conjI impI)
  assume "pl \<noteq> 32 \<and> pl \<noteq> 128"
  moreover have "index \<lparr>elems = d @ pl # rest, beyond = ys\<rparr> 8 = Inr pl"
    by (rule index_at [where pre = d and post = rest]) (simp_all add: d)
  ultimately show "t1_DecodeFromBytes r \<lparr>elems = d @ pl # rest, beyond = ys\<rparr> =
      Inl (MalformedAttribute (''Invalid Prefix length: '' @ dec (unat pl)))"
    by (simp add: t1_DecodeFromBytes_def GetRouteDistinguisher_at d len_def Let_def
          del: be_nat.simps)
next
  let ?data = "\<lparr>elems = d @ pl # pfx @ teid @ qfi # el # rest, beyond = ys\<rparr>"
  assume h: "(pl = 32 \<or> pl = 128) \<and> length pfx = unat pl div 8 \<and> length teid = 4
            \<and> el \<noteq> 32 \<and> el \<noteq> 128"
  then have "pl = 32 \<or> pl = 128" "length pfx = unat pl div 8" "length teid = 4" by simp_all
  from t1_DecodeFromBytes_upto [OF d this, of ?data qfi el rest r] h
  show "t1_DecodeFromBytes r ?data =
          Inl (MalformedAttribute (''Invalid Endpoint Address length: '' @ dec (unat el)))"
    by (auto simp add: Let_def)
next
  let ?data = "\<lparr>elems = d @ pl # pfx @ teid @ qfi # el # ea @ rest, beyond = ys\<rparr>"
  assume h: "(pl = 32 \<or> pl = 128) \<and> length pfx = unat pl div 8 \<and> length teid = 4
            \<and> (el = 32 \<or> el = 128) \<and> length ea = unat el div 8"
  then have pre: "pl = 32 \<or> pl = 128" "length pfx = unat pl div 8" "length teid = 4" by simp_all
  from h have k: "unat (el div 8) = length ea" by (simp add: unat_div)
  from h have "length ea = 4 \<or> length ea = 16" by auto
  then obtain e where e: "AddrFromSlice ea = Some e" "AsSlice e = ea"
    using AddrFromSlice_AsSlice_ex by blast
  obtain a where a: "AddrFromSlice pfx = Some a" "AsSlice a = pfx"
    and dec: "t1_DecodeFromBytes r ?data =
      (let r = r\<lparr>t1_RD := Some (RouteDistinguisher (of_nat (be_nat d))), t1_PrefixLength := pl,
                  t1_Prefix := a, t1_TEID := of_nat (be_nat teid), t1_QFI := qfi,
                  t1_EndpointAddressLength := el\<rparr>;
           p = 15 + length pfx
       in if el = 32 \<or> el = 128 then
            andThen (slice_range ?data p (p + unat (el div 8))) (\<lambda>s.
              case AddrFromSlice (elems s) of
                None \<Rightarrow> Inl (MalformedAttribute (''Invalid Endpoint Address: '' @ hex (elems s)))
              | Some ea \<Rightarrow> Inr (r\<lparr>t1_EndpointAddress := ea\<rparr>))
          else Inl (MalformedAttribute (''Invalid Endpoint Address length: '' @ dec (unat el))))"
    using t1_DecodeFromBytes_upto [OF d pre, of ?data qfi el "ea @ rest" r] by auto
  have sl: "slice_range ?data (15 + length pfx) (15 + length pfx + length ea)
              = Inr \<lparr>elems = ea, beyond = rest @ ys\<rparr>"
    by (rule slice_range_at [where pre = "d @ pl # pfx @ teid @ [qfi, el]"])
       (simp_all add: d pre)
  have "t1_DecodeFromBytes r ?data =
          Inr (r\<lparr>t1_RD := Some (RouteDistinguisher (of_nat (be_nat d))), t1_PrefixLength := pl,
                  t1_Prefix := a, t1_TEID := of_nat (be_nat teid), t1_QFI := qfi,
                  t1_EndpointAddressLength := el, t1_EndpointAddress := e\<rparr>)"
    unfolding dec Let_def k sl using h e(1) by simp
  then show "\<exists>r'. t1_DecodeFromBytes r ?data = Inr r'
                 \<and> t1_PrefixLength r' = pl \<and> AsSlice (t1_Prefix r') = pfx
                 \<and> nat_bytes 4 (unat (t1_TEID r')) = teid \<and> t1_QFI r' = qfi
                 \<and> t1_EndpointAddressLength r' = el \<and> AsSlice (t1_EndpointAddress r') = ea"
    using a(2) e(2) nat_bytes_Uint32 [OF pre(3)] by (simp del: be_nat.simps)
qed

theorem t1_DecodeFromBytes_spec_witness:
  "length [0, 0, 0, 0, 0, 0, 0, 1 :: byte] = 8
   \<and> t1_DecodeFromBytes zero_t1 \<lparr>elems = [0, 0, 0, 0, 0, 0, 0, 1] @ 24 # [10, 0, 0], beyond = []\<rparr>
       = Inl (MalformedAttribute ''Invalid Prefix length: 24'')
   \<and> t1_DecodeFromBytes zero_t1
        \<lparr>elems = [0, 0, 0, 0, 0, 0, 0, 1] @ 32 # [10, 0, 0, 1] @ [0, 0, 0, 42] @ 9 # 33 # [10, 0, 0, 2],
         beyond = []\<rparr>
       = Inl (MalformedAttribute ''Invalid Endpoint Address length: 33'')
   \<and> (\<exists>r'. t1_DecodeFromBytes zero_t1
        \<lparr>elems = [0, 0, 0, 0, 0, 0, 0, 1] @ 32 # [10, 0, 0, 1] @ [0, 0, 0, 42] @ 9 # 32 # [10, 0, 0, 2] @ [],
         beyond = []\<rparr> = Inr r'
        \<and> t1_PrefixLength r' = 32 \<and> AsSlice (t1_Prefix r') = [10, 0, 0, 1]
        \<and> nat_bytes 4 (unat (t1_TEID r')) = [0, 0, 0, 42] \<and> t1_QFI r' = 9
        \<and> t1_EndpointAddressLength r' = 32 \<and> AsSlice (t1_EndpointAddress r') = [10, 0, 0, 2])"
proof -
  have h: "length [0, 0, 0, 0, 0, 0, 0, 1 :: byte] = 8" by simp
  have u: "unat (32 :: byte) div 8 = 4" by simp
  show ?thesis
    using h
      t1_DecodeFromBytes_spec [OF h, where pl = 24 and r = zero_t1 and rest = "[10, 0, 0]"
        and ys = "[]"]
      t1_DecodeFromBytes_spec [OF h, where pl = 32 and r = zero_t1 and rest = "[10, 0, 0, 2]"
        and ys = "[]" and pfx = "[10, 0, 0, 1]" and teid = "[0, 0, 0, 42]" and el = 33 and qfi = 9]
      t1_DecodeFromBytes_spec [OF h, where pl = 32 and r = zero_t1 and rest = "[]"
        and ys = "[]" and pfx = "[10, 0, 0, 1]" and teid = "[0, 0, 0, 42]" and el = 32
        and ea = "[10, 0, 0, 2]" and qfi = 9]
    by (simp add: dec.simps u)
qed

lemma andThen_eq_Inr: "andThen m f = Inr y \<longleftrightarrow> (\<exists>x. m = Inr x \<and> f x = Inr y)"
  by (cases m) simp_all

lemma take_take_drop: "take a xs @ take b (drop a xs) = take (a + b) xs"
  by (simp add: take_add)

lemma take_take_drop_app: "take a xs @ take b (drop a xs) @ zs = take (a + b) xs @ zs"
  by (simp add: take_add)

lemma take_chain4:
  "take a xs @ take b (drop a xs) @ take c (drop (a + b) xs) @ take d (drop (a + b + c) xs)
     = take (a + b + c + d) xs"
  by (simp add: take_add)

lemma index_Inr:
  assumes "index s p = Inr x"
  shows "p < len s" "take 1 (drop p (elems s @ beyond s)) = [x]"
proof -
  show p: "p < len s" using assms by (simp add: index_def split: if_splits)
  then have "elems s ! p = x" using assms by (simp add: index_def)
  moreover have "drop p (elems s @ beyond s) = (elems s ! p) # drop (Suc p) (elems s @ beyond s)"
    using p by (simp add: len_def Cons_nth_drop_Suc nth_append)
  ultimately show "take 1 (drop p (elems s @ beyond s)) = [x]" by simp
qed

lemma slice_from_Inr:
  assumes "slice_from s a = Inr s'"
  shows "a \<le> len s" "elems s' = drop a (elems s)"
  using assms by (auto simp add: slice_from_def split: if_splits)

lemma unat_of_nat_be_nat:
  assumes "256 ^ length x = (2::nat) ^ LENGTH('a::len)"
  shows "unat (of_nat (be_nat x) :: 'a word) = be_nat x"
proof -
  have "be_nat x < 2 ^ LENGTH('a)" using be_nat_lt [of x] assms by simp
  then show ?thesis by (simp add: unat_of_nat del: be_nat.simps)
qed

lemma GetRouteDistinguisher_Inr:
  assumes "GetRouteDistinguisher data = Inr rd"
  shows "8 \<le> cap data" "rd_Len rd = 8"
    "rd_Serialize rd = Inr (take 8 (elems data @ beyond data))"
proof -
  from assms obtain s where s: "slice_range data 0 8 = Inr s"
    and rd: "rd = RouteDistinguisher (of_nat (be_nat (elems s)))"
    by (auto simp add: GetRouteDistinguisher_def andThen_eq_Inr simp del: be_nat.simps)
  show c: "8 \<le> cap data" using slice_range_Inr(2) [OF s] .
  show "rd_Len rd = 8" by (simp add: rd del: be_nat.simps)
  have e: "elems s = take 8 (elems data @ beyond data)"
    using slice_range_Inr(3) [OF s] by simp
  have l: "length (elems s) = 8" using c unfolding e by (simp add: cap_def)
  have "unat (of_nat (be_nat (elems s)) :: 64 word) = be_nat (elems s)"
    by (rule unat_of_nat_be_nat) (simp add: l)
  then have "nat_bytes 8 (unat (of_nat (be_nat (elems s)) :: 64 word)) = elems s"
    using nat_bytes_be_nat [of "elems s"] l by (simp del: be_nat.simps)
  then show "rd_Serialize rd = Inr (take 8 (elems data @ beyond data))"
    unfolding rd e by (simp del: be_nat.simps)
qed

lemma AddrFromSlice_Some:
  assumes "AddrFromSlice x = Some a"
  shows "AsSlice a = x" "length x = 4 \<or> length x = 16" "BitLen a = 8 * length x"
    "a \<noteq> AddrZero" "Zone a = []"
proof -
  show l: "length x = 4 \<or> length x = 16"
    using assms by (auto simp add: AddrFromSlice_def split: if_splits simp del: be_nat.simps)
  from AddrFromSlice_AsSlice_ex [OF l] assms
  show "AsSlice a = x" "BitLen a = 8 * length x" "a \<noteq> AddrZero" "Zone a = []" by auto
qed

lemma withoutZone_id: "Zone a = [] \<Longrightarrow> withoutZone a = a"
  by (cases a) simp_all

lemma Uint32_Inr:
  assumes "Uint32 s = Inr w"
  shows "4 \<le> len s" "nat_bytes 4 (unat w) = take 4 (elems s)"
proof -
  show l: "4 \<le> len s" using assms by (simp add: Uint32_def split: if_splits)
  have w: "w = of_nat (be_nat (take 4 (elems s)))"
    using assms by (simp add: Uint32_def split: if_splits del: be_nat.simps)
  have "length (take 4 (elems s)) = 4" using l by (simp add: len_def)
  then show "nat_bytes 4 (unat w) = take 4 (elems s)"
    unfolding w by (rule nat_bytes_Uint32)
qed

lemma t2_finish_Inr:
  assumes "t2_finish r data ea p teidLen = Inr r'"
  shows "4 \<le> teidLen" "p + teidLen \<le> cap data"
    "r' = r\<lparr>t2_EndpointAddress := ea, t2_TEID := t2_TEID r'\<rparr>"
    "nat_bytes 4 (unat (t2_TEID r')) = take 4 (drop p (elems data @ beyond data))"
proof -
  from assms obtain s w where s: "slice_range data p (p + teidLen) = Inr s"
    and w: "Uint32 s = Inr w" and r': "r' = r\<lparr>t2_EndpointAddress := ea, t2_TEID := w\<rparr>"
    by (auto simp add: t2_finish_def andThen_eq_Inr Let_def)
  have ls: "len s = teidLen" using slice_range_Inr(4) [OF s] by simp
  show t: "4 \<le> teidLen" using Uint32_Inr(1) [OF w] ls by simp
  show "p + teidLen \<le> cap data" using slice_range_Inr(2) [OF s] .
  show "r' = r\<lparr>t2_EndpointAddress := ea, t2_TEID := t2_TEID r'\<rparr>" by (simp add: r')
  have "take 4 (elems s) = take 4 (drop p (elems data @ beyond data))"
    using slice_range_Inr(3) [OF s] t by (simp add: min_def)
  then show "nat_bytes 4 (unat (t2_TEID r')) = take 4 (drop p (elems data @ beyond data))"
    using Uint32_Inr(2) [OF w] by (simp add: r')
qed


lemma rd_Len_8 [simp]: "rd_Len rd = 8"
  by (cases rd) simp

lemma t2_DecodeFromBytes_steps:
  assumes "t2_DecodeFromBytes r data = Inr r'"
  shows "\<exists>rd el s ea. GetRouteDistinguisher data = Inr rd \<and> index data 8 = Inr el
           \<and> AddrFromSlice (elems s) = Some ea
           \<and> (32 \<le> el \<and> el \<le> 64 \<and> slice_range data 9 13 = Inr s
                \<and> t2_finish (r\<lparr>t2_RD := Some rd, t2_EndpointAddressLength := el\<rparr>) data ea
                     13 (unat el div 8 - 4) = Inr r'
              \<or> 128 \<le> el \<and> el \<le> 160 \<and> slice_range data 9 25 = Inr s
                \<and> t2_finish (r\<lparr>t2_RD := Some rd, t2_EndpointAddressLength := el\<rparr>) data ea
                     25 (unat el div 8 - 16) = Inr r')"
  using assms
  by (auto simp add: t2_DecodeFromBytes_def andThen_eq_Inr Let_def
        split: if_splits option.splits)

lemma t2_DecodeFromBytes_Inr:
  assumes "t2_DecodeFromBytes r data = Inr r'"
  shows "t2_Serialize r' = Inr (take (t2_Len r') (elems data @ beyond data))"
    and "t2_Len r' \<le> cap data"
proof -
  define all where "all = elems data @ beyond data"
  from t2_DecodeFromBytes_steps [OF assms]
  obtain rd el s ea where rd: "GetRouteDistinguisher data = Inr rd"
    and el: "index data 8 = Inr el"
    and ea: "AddrFromSlice (elems s) = Some ea"
    and alt: "32 \<le> el \<and> el \<le> 64 \<and> slice_range data 9 13 = Inr s
                \<and> t2_finish (r\<lparr>t2_RD := Some rd, t2_EndpointAddressLength := el\<rparr>) data ea
                     13 (unat el div 8 - 4) = Inr r'
              \<or> 128 \<le> el \<and> el \<le> 160 \<and> slice_range data 9 25 = Inr s
                \<and> t2_finish (r\<lparr>t2_RD := Some rd, t2_EndpointAddressLength := el\<rparr>) data ea
                     25 (unat el div 8 - 16) = Inr r'"
    by blast
  obtain k where s: "slice_range data 9 (9 + k) = Inr s"
    and fin: "t2_finish (r\<lparr>t2_RD := Some rd, t2_EndpointAddressLength := el\<rparr>) data ea
                (9 + k) (unat el div 8 - k) = Inr r'"
    and band: "k = 4 \<and> el \<le> 64 \<or> k = 16 \<and> el \<le> 160"
  proof -
    from alt show ?thesis
    proof
      assume "32 \<le> el \<and> el \<le> 64 \<and> slice_range data 9 13 = Inr s
                \<and> t2_finish (r\<lparr>t2_RD := Some rd, t2_EndpointAddressLength := el\<rparr>) data ea
                     13 (unat el div 8 - 4) = Inr r'"
      then show ?thesis using that [of 4] by simp
    next
      assume "128 \<le> el \<and> el \<le> 160 \<and> slice_range data 9 25 = Inr s
                \<and> t2_finish (r\<lparr>t2_RD := Some rd, t2_EndpointAddressLength := el\<rparr>) data ea
                     25 (unat el div 8 - 16) = Inr r'"
      then show ?thesis using that [of 16] by simp
    qed
  qed
  have w: "4 \<le> unat el div 8 - k" using t2_finish_Inr(1) [OF fin] .
  have uel: "unat el div 8 = k + 4"
  proof -
    from band have "k = 4 \<and> unat el \<le> 64 \<or> k = 16 \<and> unat el \<le> 160"
      by (auto simp add: word_le_nat_alt)
    with w show ?thesis by auto
  qed
  have r': "r' = r\<lparr>t2_RD := Some rd, t2_EndpointAddressLength := el, t2_EndpointAddress := ea,
                    t2_TEID := t2_TEID r'\<rparr>"
    using t2_finish_Inr(3) [OF fin] by simp
  have g1: "t2_RD r' = Some rd" and g2: "t2_EndpointAddressLength r' = el"
    and g3: "t2_EndpointAddress r' = ea"
    by (subst r', simp)+
  have len: "t2_Len r' = 13 + k"
    by (simp add: t2_Len_def g2 unat_div uel)
  have c: "t2_Len r' \<le> cap data"
    using t2_finish_Inr(2) [OF fin] uel len by simp
  have es: "elems s = take k (drop 9 all)"
    using slice_range_Inr(3) [OF s] by (simp add: all_def)
  have b1: "rd_buf (t2_RD r') = Inr (take 8 all)"
    unfolding g1 all_def using GetRouteDistinguisher_Inr(3) [OF rd] by (simp add: rd_buf_def)
  have f2: "[el] = take 1 (drop 8 all)"
    unfolding all_def using index_Inr(2) [OF el] by simp
  have f3: "AsSlice ea = take k (drop 9 all)"
    using AddrFromSlice_Some(1) [OF ea] es by simp
  have f4: "nat_bytes 4 (unat (t2_TEID r')) = take 4 (drop (9 + k) all)"
    unfolding all_def using t2_finish_Inr(4) [OF fin] .
  have "take 8 all @ take 1 (drop 8 all) @ take k (drop 9 all) @ take 4 (drop (9 + k) all)
          = take (13 + k) all"
    using take_chain4 [of 8 all 1 k 4] by (simp add: add.commute)
  then have "t2_Serialize r' = Inr (take (t2_Len r') all)"
    unfolding t2_Serialize_eq [OF b1] g2 g3 f2 f3 f4 len by simp
  then show "t2_Serialize r' = Inr (take (t2_Len r') (elems data @ beyond data))"
    unfolding all_def .
  show "t2_Len r' \<le> cap data" by (rule c)
qed


lemma dsd_DecodeFromBytes_steps:
  assumes "dsd_DecodeFromBytes r data = Inr r'"
  shows "\<exists>rd s a. GetRouteDistinguisher data = Inr rd \<and> AddrFromSlice (elems s) = Some a
           \<and> r' = r\<lparr>dsd_RD := Some rd, dsd_Address := a\<rparr>
           \<and> (len data = 12 \<and> slice_range data 8 12 = Inr s
              \<or> len data = 24 \<and> slice_range data 8 24 = Inr s)"
  using assms
  by (auto simp add: dsd_DecodeFromBytes_def andThen_eq_Inr Let_def
        split: if_splits option.splits)

lemma dsd_DecodeFromBytes_Inr_Serialize:
  assumes "dsd_DecodeFromBytes r data = Inr r'"
  shows "dsd_Serialize r' = Inr (take (dsd_Len r') (elems data @ beyond data))"
    and "dsd_Len r' \<le> cap data"
proof -
  define all where "all = elems data @ beyond data"
  from dsd_DecodeFromBytes_steps [OF assms]
  obtain rd s a where rd: "GetRouteDistinguisher data = Inr rd"
    and a: "AddrFromSlice (elems s) = Some a"
    and r': "r' = r\<lparr>dsd_RD := Some rd, dsd_Address := a\<rparr>"
    and alt: "len data = 12 \<and> slice_range data 8 12 = Inr s
              \<or> len data = 24 \<and> slice_range data 8 24 = Inr s"
    by blast
  obtain k where s: "slice_range data 8 (8 + k) = Inr s" and lk: "len data = 8 + k"
    using alt that [of 4] that [of 16] by auto
  have es: "elems s = take k (drop 8 all)"
    using slice_range_Inr(3) [OF s] by (simp add: all_def)
  have ls: "length (elems s) = k" using slice_range_Inr(4) [OF s] by (simp add: len_def)
  have g1: "dsd_RD r' = Some rd" and g2: "dsd_Address r' = a" by (simp_all add: r')
  have bl: "BitLen a div 8 = k" using AddrFromSlice_Some(3) [OF a] ls by simp
  have len: "dsd_Len r' = 8 + k" by (simp add: dsd_Len_def g2 bl)
  have b1: "rd_buf (dsd_RD r') = Inr (take 8 all)"
    unfolding g1 all_def using GetRouteDistinguisher_Inr(3) [OF rd] by (simp add: rd_buf_def)
  have f2: "AsSlice a = take k (drop 8 all)"
    using AddrFromSlice_Some(1) [OF a] es by simp
  have "take 8 all @ take k (drop 8 all) = take (8 + k) all"
    by (rule take_take_drop)
  then have "dsd_Serialize r' = Inr (take (dsd_Len r') all)"
    unfolding dsd_Serialize_eq [OF b1] g2 f2 len by simp
  then show "dsd_Serialize r' = Inr (take (dsd_Len r') (elems data @ beyond data))"
    unfolding all_def .
  show "dsd_Len r' \<le> cap data"
    using lk len by (simp add: len_def cap_def)
qed

lemma isd_DecodeFromBytes_steps:
  assumes "isd_DecodeFromBytes r data = Inr r'"
  shows "\<exists>rd pl s a. GetRouteDistinguisher data = Inr rd \<and> index data 8 = Inr pl
           \<and> slice_from data 9 = Inr s \<and> AddrFromSlice (elems s) = Some a
           \<and> r' = r\<lparr>isd_RD := Some rd, isd_PrefixLength := pl,
                     isd_Prefix := PrefixFrom a (int (unat pl))\<rparr>"
  using assms
  by (auto simp add: isd_DecodeFromBytes_def andThen_eq_Inr Let_def
        split: if_splits option.splits)

lemma isd_DecodeFromBytes_Inr_Serialize:
  assumes "isd_DecodeFromBytes r data = Inr r'"
  shows "isd_Serialize r' = Inr (take (isd_Len r') (elems data @ beyond data))"
    and "isd_Len r' \<le> cap data"
proof -
  from isd_DecodeFromBytes_steps [OF assms]
  obtain rd pl s a where rd: "GetRouteDistinguisher data = Inr rd"
    and pl: "index data 8 = Inr pl"
    and s: "slice_from data 9 = Inr s"
    and a: "AddrFromSlice (elems s) = Some a"
    and r': "r' = r\<lparr>isd_RD := Some rd, isd_PrefixLength := pl,
                     isd_Prefix := PrefixFrom a (int (unat pl))\<rparr>"
    by blast
  define e where "e = elems data"
  have l9: "9 \<le> length e" using slice_from_Inr(1) [OF s] by (simp add: len_def e_def)
  have es: "elems s = drop 9 e" using slice_from_Inr(2) [OF s] by (simp add: e_def)
  have t8: "take 8 (elems data @ beyond data) = take 8 e" using l9 by (simp add: e_def)
  have n8: "e ! 8 = pl" using pl by (simp add: index_def e_def split: if_splits)
  have g1: "isd_RD r' = Some rd" and g2: "isd_PrefixLength r' = pl"
    and g3: "Addr_of (isd_Prefix r') = a"
    by (simp_all add: r' PrefixFrom_def withoutZone_id [OF AddrFromSlice_Some(5) [OF a]])
  have bl: "BitLen a div 8 = length e - 9"
    using AddrFromSlice_Some(3) [OF a] es by simp
  have len: "isd_Len r' = length e" using l9 by (simp add: isd_Len_def g3 bl)
  have b1: "rd_buf (isd_RD r') = Inr (take 8 e)"
    unfolding g1 using GetRouteDistinguisher_Inr(3) [OF rd] t8 by (simp add: rd_buf_def)
  have f3: "AsSlice a = drop 9 e" using AddrFromSlice_Some(1) [OF a] es by simp
  have "e = take 8 e @ e ! 8 # drop (Suc 8) e"
    using l9 by (intro id_take_nth_drop) simp
  then have "take 8 e @ [pl] @ drop 9 e = e" using n8 by simp
  then have "isd_Serialize r' = Inr e"
    unfolding isd_Serialize_eq [OF b1] g2 g3 f3 by simp
  then show "isd_Serialize r' = Inr (take (isd_Len r') (elems data @ beyond data))"
    unfolding len by (simp add: e_def)
  show "isd_Len r' \<le> cap data" unfolding len by (simp add: e_def cap_def)
qed


lemma andThen_Inr_dest: "andThen m f = Inr y \<Longrightarrow> \<exists>x. m = Inr x \<and> f x = Inr y"
  by (simp add: andThen_eq_Inr)

lemma andThen_case_Inr:
  "andThen m (\<lambda>s. case g s of None \<Rightarrow> Inl (e s) | Some x \<Rightarrow> h s x) = Inr y
     \<Longrightarrow> \<exists>s x. m = Inr s \<and> g s = Some x \<and> h s x = Inr y"
  by (cases m) (auto split: option.splits)

lemma t1_DecodeFromBytes_steps:
  assumes "t1_DecodeFromBytes r data = Inr r'"
  shows "\<exists>rd pl s1 a s2 w qfi el s3 e.
           GetRouteDistinguisher data = Inr rd \<and> index data 8 = Inr pl
           \<and> slice_range data (8 + 1) (8 + 1 + unat (pl div 8)) = Inr s1
           \<and> AddrFromSlice (elems s1) = Some a
           \<and> slice_range data (8 + 1 + unat (pl div 8)) (8 + 1 + unat (pl div 8) + 4) = Inr s2
           \<and> Uint32 s2 = Inr w
           \<and> index data (8 + 1 + unat (pl div 8) + 4) = Inr qfi
           \<and> index data (8 + 1 + unat (pl div 8) + 4 + 1) = Inr el
           \<and> slice_range data (8 + 1 + unat (pl div 8) + 4 + 1 + 1)
                (8 + 1 + unat (pl div 8) + 4 + 1 + 1 + unat (el div 8)) = Inr s3
           \<and> AddrFromSlice (elems s3) = Some e
           \<and> r' = r\<lparr>t1_RD := Some rd, t1_PrefixLength := pl, t1_Prefix := a, t1_TEID := w,
                     t1_QFI := qfi, t1_EndpointAddressLength := el, t1_EndpointAddress := e\<rparr>"
proof -
  from assms obtain rd where rd: "GetRouteDistinguisher data = Inr rd"
    unfolding t1_DecodeFromBytes_def andThen_eq_Inr by blast
  from assms obtain pl where pl: "index data 8 = Inr pl"
    unfolding t1_DecodeFromBytes_def rd andThen_Inr Let_def rd_Len_8
    by (auto simp only: andThen_eq_Inr split: if_splits)
  have plv: "pl = 32 \<or> pl = 128"
    using assms unfolding t1_DecodeFromBytes_def rd andThen_Inr Let_def rd_Len_8 pl
    by (auto split: if_splits)
  let ?k = "unat (pl div 8)"
  let ?F4 = "\<lambda>prefix teid qfi el.
     if el = 32 \<or> el = 128 then
       andThen (slice_range data (8 + 1 + ?k + 4 + 1 + 1)
                  (8 + 1 + ?k + 4 + 1 + 1 + unat (el div 8))) (\<lambda>s.
         case AddrFromSlice (elems s) of
           None \<Rightarrow> Inl (MalformedAttribute (''Invalid Endpoint Address: '' @ hex (elems s)))
         | Some ea \<Rightarrow>
             Inr (r\<lparr>t1_RD := Some rd, t1_PrefixLength := pl, t1_Prefix := prefix,
                    t1_TEID := teid, t1_QFI := qfi, t1_EndpointAddressLength := el,
                    t1_EndpointAddress := ea\<rparr>))
     else Inl (MalformedAttribute (''Invalid Endpoint Address length: '' @ dec (unat el)))"
  let ?F3 = "\<lambda>prefix teid qfi.
     andThen (index data (8 + 1 + ?k + 4 + 1)) (\<lambda>el. ?F4 prefix teid qfi el)"
  let ?F2 = "\<lambda>prefix teid.
     andThen (index data (8 + 1 + ?k + 4)) (\<lambda>qfi. ?F3 prefix teid qfi)"
  let ?F1 = "\<lambda>prefix.
     andThen (andThen (slice_range data (8 + 1 + ?k) (8 + 1 + ?k + 4)) Uint32)
       (\<lambda>teid. ?F2 prefix teid)"
  have rest: "andThen (slice_range data (8 + 1) (8 + 1 + ?k)) (\<lambda>s.
             case AddrFromSlice (elems s) of
               None \<Rightarrow> Inl (MalformedAttribute (''Invalid Prefix: '' @ hex (elems s)))
             | Some prefix \<Rightarrow> ?F1 prefix) = Inr r'"
    using assms plv unfolding t1_DecodeFromBytes_def rd andThen_Inr Let_def rd_Len_8 pl
    by (simp split: if_splits)
  from andThen_case_Inr [OF rest]
  obtain s1 a where s1: "slice_range data (8 + 1) (8 + 1 + ?k) = Inr s1"
    and a: "AddrFromSlice (elems s1) = Some a" and r1: "?F1 a = Inr r'"
    by blast
  from andThen_Inr_dest [OF r1]
  obtain w where sw: "andThen (slice_range data (8 + 1 + ?k) (8 + 1 + ?k + 4)) Uint32 = Inr w"
    and r2: "?F2 a w = Inr r'"
    by blast
  from andThen_Inr_dest [OF sw]
  obtain s2 where s2: "slice_range data (8 + 1 + ?k) (8 + 1 + ?k + 4) = Inr s2"
    and w: "Uint32 s2 = Inr w"
    by blast
  from andThen_Inr_dest [OF r2]
  obtain qfi where qfi: "index data (8 + 1 + ?k + 4) = Inr qfi" and r3: "?F3 a w qfi = Inr r'"
    by blast
  from andThen_Inr_dest [OF r3]
  obtain el where el: "index data (8 + 1 + ?k + 4 + 1) = Inr el" and r4: "?F4 a w qfi el = Inr r'"
    by blast
  have elv: "el = 32 \<or> el = 128" using r4 by (auto split: if_splits)
  note r5 = r4 [unfolded if_P [OF elv]]
  from andThen_case_Inr [OF r5]
  obtain s3 e where
    s3: "slice_range data (8 + 1 + ?k + 4 + 1 + 1)
                (8 + 1 + ?k + 4 + 1 + 1 + unat (el div 8)) = Inr s3"
    and e: "AddrFromSlice (elems s3) = Some e"
    and r6: "Inr (r\<lparr>t1_RD := Some rd, t1_PrefixLength := pl, t1_Prefix := a, t1_TEID := w,
                t1_QFI := qfi, t1_EndpointAddressLength := el, t1_EndpointAddress := e\<rparr>)
             = (Inr r' :: MUPType1SessionTransformedRoute result)"
    by blast
  from r6 have "r' = r\<lparr>t1_RD := Some rd, t1_PrefixLength := pl, t1_Prefix := a, t1_TEID := w,
                t1_QFI := qfi, t1_EndpointAddressLength := el, t1_EndpointAddress := e\<rparr>"
    by simp
  with rd pl s1 a s2 w qfi el s3 e show ?thesis by blast
qed


lemma take_chain7:
  "take a xs @ take b (drop a xs) @ take c (drop (a + b) xs) @ take d (drop (a + b + c) xs)
     @ take e (drop (a + b + c + d) xs) @ take f (drop (a + b + c + d + e) xs)
     @ take g (drop (a + b + c + d + e + f) xs)
   = take (a + b + c + d + e + f + g) xs"
  by (simp add: take_add)

lemma t1_DecodeFromBytes_Inr_Serialize:
  assumes "t1_DecodeFromBytes r data = Inr r'"
  shows "t1_Serialize r' = Inr (take (t1_Len r') (elems data @ beyond data))"
    and "t1_Len r' \<le> cap data"
proof -
  define all where "all = elems data @ beyond data"
  from t1_DecodeFromBytes_steps [OF assms]
  obtain rd pl s1 a s2 w qfi el s3 e where
    rd: "GetRouteDistinguisher data = Inr rd" and pl: "index data 8 = Inr pl"
    and s1: "slice_range data (8 + 1) (8 + 1 + unat (pl div 8)) = Inr s1"
    and a: "AddrFromSlice (elems s1) = Some a"
    and s2: "slice_range data (8 + 1 + unat (pl div 8)) (8 + 1 + unat (pl div 8) + 4) = Inr s2"
    and w: "Uint32 s2 = Inr w"
    and qfi: "index data (8 + 1 + unat (pl div 8) + 4) = Inr qfi"
    and el: "index data (8 + 1 + unat (pl div 8) + 4 + 1) = Inr el"
    and s3: "slice_range data (8 + 1 + unat (pl div 8) + 4 + 1 + 1)
                (8 + 1 + unat (pl div 8) + 4 + 1 + 1 + unat (el div 8)) = Inr s3"
    and e: "AddrFromSlice (elems s3) = Some e"
    and r': "r' = r\<lparr>t1_RD := Some rd, t1_PrefixLength := pl, t1_Prefix := a, t1_TEID := w,
                     t1_QFI := qfi, t1_EndpointAddressLength := el, t1_EndpointAddress := e\<rparr>"
    by blast
  define k1 where "k1 = unat (pl div 8)"
  define k2 where "k2 = unat (el div 8)"
  note s1' = s1 [folded k1_def] and s2' = s2 [folded k1_def] and qfi' = qfi [folded k1_def]
    and el' = el [folded k1_def] and s3' = s3 [folded k1_def k2_def]
  have g: "t1_RD r' = Some rd" "t1_PrefixLength r' = pl" "t1_Prefix r' = a" "t1_TEID r' = w"
    "t1_QFI r' = qfi" "t1_EndpointAddressLength r' = el" "t1_EndpointAddress r' = e"
    by (simp_all add: r')
  have len: "t1_Len r' = 8 + 1 + k1 + 4 + 1 + 1 + k2"
    by (simp add: t1_Len_def g k1_def k2_def)
  have c: "t1_Len r' \<le> cap data"
    using slice_range_Inr(2) [OF s3'] len by simp
  have f1: "rd_buf (t1_RD r') = Inr (take 8 all)"
    unfolding g all_def using GetRouteDistinguisher_Inr(3) [OF rd] by (simp add: rd_buf_def)
  have f2: "[pl] = take 1 (drop 8 all)"
    unfolding all_def using index_Inr(2) [OF pl] by simp
  have f3: "AsSlice a = take k1 (drop (8 + 1) all)"
    using AddrFromSlice_Some(1) [OF a] slice_range_Inr(3) [OF s1', folded all_def] by simp
  have "take 4 (elems s2) = take 4 (drop (8 + 1 + k1) all)"
    using slice_range_Inr(3) [OF s2', folded all_def] by simp
  then have f4: "nat_bytes 4 (unat w) = take 4 (drop (8 + 1 + k1) all)"
    using Uint32_Inr(2) [OF w] by simp
  have f5: "[qfi] = take 1 (drop (8 + 1 + k1 + 4) all)"
    unfolding all_def using index_Inr(2) [OF qfi'] by simp
  have f6: "[el] = take 1 (drop (8 + 1 + k1 + 4 + 1) all)"
    unfolding all_def using index_Inr(2) [OF el'] by simp
  have f7: "AsSlice e = take k2 (drop (8 + 1 + k1 + 4 + 1 + 1) all)"
    using AddrFromSlice_Some(1) [OF e] slice_range_Inr(3) [OF s3', folded all_def] by simp
  have "t1_Serialize r' = Inr (take (t1_Len r') all)"
    unfolding t1_Serialize_eq [OF f1] g f2 f3 f4 f5 f6 f7 take_chain7 len ..
  then show "t1_Serialize r' = Inr (take (t1_Len r') (elems data @ beyond data))"
    unfolding all_def .
  show "t1_Len r' \<le> cap data" by (rule c)
qed

lemma route_DecodeFromBytes_Inr_Serialize:
  assumes "route_DecodeFromBytes r data = Inr r'"
  shows "route_Serialize r' = Inr (take (route_Len r') (elems data @ beyond data))"
proof (cases r)
  case (Interwork x)
  with assms obtain x' where "isd_DecodeFromBytes x data = Inr x'" "r' = Interwork x'"
    by (auto simp add: andThen_eq_Inr)
  then show ?thesis using isd_DecodeFromBytes_Inr_Serialize(1) by simp
next
  case (Direct x)
  with assms obtain x' where "dsd_DecodeFromBytes x data = Inr x'" "r' = Direct x'"
    by (auto simp add: andThen_eq_Inr)
  then show ?thesis using dsd_DecodeFromBytes_Inr_Serialize(1) by simp
next
  case (Type1 x)
  with assms obtain x' where "t1_DecodeFromBytes x data = Inr x'" "r' = Type1 x'"
    by (auto simp add: andThen_eq_Inr)
  then show ?thesis using t1_DecodeFromBytes_Inr_Serialize(1) by simp
next
  case (Type2 x)
  with assms obtain x' where "t2_DecodeFromBytes x data = Inr x'" "r' = Type2 x'"
    by (auto simp add: andThen_eq_Inr)
  then show ?thesis using t2_DecodeFromBytes_Inr(1) by simp
qed


lemma word_of_be_nat_nat_bytes:
  assumes "256 ^ k = (2::nat) ^ LENGTH('a::len)"
  shows "(of_nat (be_nat (nat_bytes k (unat (w :: 'a word)))) :: 'a word) = w"
proof -
  have "unat w < 2 ^ LENGTH('a)" by (rule unsigned_less)
  then have "unat w mod 256 ^ k = unat w" using assms by simp
  then show ?thesis by (simp only: be_nat_nat_bytes) simp
qed

lemma nat_bytes_2_be_nat: "nat_bytes 2 (unat (of_nat (be_nat [b, c]) :: 16 word)) = [b, c]"
proof -
  have u: "unat (of_nat (be_nat [b, c]) :: 16 word) = be_nat [b, c]"
    by (rule unat_of_nat_be_nat) simp
  have "nat_bytes (length [b, c]) (be_nat [b, c]) = [b, c]" by (rule nat_bytes_be_nat)
  moreover have "length [b, c] = 2" by simp
  ultimately have "nat_bytes 2 (be_nat [b, c]) = [b, c]" by (simp only:)
  then show ?thesis by (simp only: u)
qed

lemma MUPNLRI_reencode:
  assumes dec: "MUPNLRI_DecodeFromBytes n0 \<lparr>elems = bs, beyond = ys\<rparr> = Inr n"
    and r: "RouteTypeData n = Some r"
    and len: "length bs = 4 + route_Len r"
  shows "MUPNLRI_Serialize n = Inr bs"
proof -
  have "\<not> length bs < 4"
    using dec MUPNLRI_DecodeFromBytes_short [of bs n0 ys] by auto
  then obtain a b c l rest where bs: "bs = a # b # c # l # rest"
    using length_ge_4 [of bs] by (metis not_less)
  define rt :: "16 word" where "rt = of_nat (be_nat [b, c])"
  define body where
    "body = \<lparr>elems = take (unat l) rest, beyond = drop (unat l) (rest @ ys)\<rparr>"
  have hd: "MUPNLRI_DecodeFromBytes n0 \<lparr>elems = bs, beyond = ys\<rparr> =
     (if length rest < unat l
      then Inl (MalformedAttribute ''Not all MUPNLRI Route type bytes available'')
      else andThen (getMUPRouteType a rt) (\<lambda>r.
           andThen (route_DecodeFromBytes r body) (\<lambda>r.
             Inr \<lparr>ArchitectureType = a, RouteType = rt, Length = l, RouteTypeData = Some r\<rparr>)))"
    unfolding bs rt_def body_def by (rule MUPNLRI_DecodeFromBytes_header)
  have ll: "unat l \<le> length rest"
    using dec unfolding hd by (auto split: if_splits)
  then have "andThen (getMUPRouteType a rt) (\<lambda>r.
           andThen (route_DecodeFromBytes r body) (\<lambda>r.
             Inr \<lparr>ArchitectureType = a, RouteType = rt, Length = l, RouteTypeData = Some r\<rparr>))
         = Inr n"
    using dec unfolding hd by simp
  then obtain r0 r1 where "getMUPRouteType a rt = Inr r0"
    and r1: "route_DecodeFromBytes r0 body = Inr r1"
    and n: "n = \<lparr>ArchitectureType = a, RouteType = rt, Length = l, RouteTypeData = Some r1\<rparr>"
    by (auto simp add: andThen_eq_Inr)
  have rr: "r1 = r" using r n by simp
  have all: "elems body @ beyond body = rest @ ys"
    using ll by (simp add: body_def)
  have "length rest = route_Len r" using len bs by simp
  then have "route_Serialize r = Inr rest"
    using route_DecodeFromBytes_Inr_Serialize [OF r1] unfolding all rr by simp
  then have "MUPNLRI_Serialize n =
               Inr (ArchitectureType n # nat_bytes 2 (unat (RouteType n)) @ [Length n] @ rest)"
    by (rule MUPNLRI_Serialize_eq [OF r])
  then show ?thesis
    unfolding bs n by (simp add: rt_def nat_bytes_2_be_nat del: be_nat.simps)
qed


lemma AddrFromSlice_AsSlice:
  assumes "a \<noteq> AddrZero" and zl: "Zone a = []"
  shows "AddrFromSlice (AsSlice a) = Some a"
proof (cases a)
  case AddrZero
  with assms show ?thesis by simp
next
  case (Addr4 w)
  have "(of_nat (be_nat (nat_bytes 4 (unat w))) :: 32 word) = w"
    by (rule word_of_be_nat_nat_bytes) simp
  then show ?thesis using Addr4 by (simp add: AddrFromSlice_4 del: be_nat.simps)
next
  case (Addr6 w z)
  have "(of_nat (be_nat (nat_bytes 16 (unat w))) :: 128 word) = w"
    by (rule word_of_be_nat_nat_bytes) simp
  then show ?thesis using Addr6 zl by (simp add: AddrFromSlice_16 del: be_nat.simps)
qed

lemma rd_word_roundtrip: "(of_nat (be_nat (nat_bytes 8 (unat w))) :: 64 word) = w"
  by (rule word_of_be_nat_nat_bytes) simp

lemma teid_word_roundtrip: "(of_nat (be_nat (nat_bytes 4 (unat w))) :: 32 word) = w"
  by (rule word_of_be_nat_nat_bytes) simp

lemma length_AsSlice_cases: "a \<noteq> AddrZero \<Longrightarrow> length (AsSlice a) = 4 \<or> length (AsSlice a) = 16"
  by (cases a) simp_all

lemma dsd_decode_serialized:
  assumes nz: "a \<noteq> AddrZero" and zl: "Zone a = []"
  shows "dsd_DecodeFromBytes r \<lparr>elems = nat_bytes 8 (unat w) @ AsSlice a, beyond = ys\<rparr> =
           Inr \<lparr>dsd_RD = Some (RouteDistinguisher w), dsd_Address = a\<rparr>"
proof -
  have l8: "length (nat_bytes 8 (unat w)) = 8" by simp
  from AddrFromSlice_AsSlice [OF nz zl] have af: "AddrFromSlice (AsSlice a) = Some a" .
  from length_AsSlice_cases [OF nz] show ?thesis
  proof
    assume l: "length (AsSlice a) = 4"
    have "Addr4 (of_nat (be_nat (AsSlice a))) = a"
      using af by (simp add: AddrFromSlice_4 [OF l] del: be_nat.simps)
    then show ?thesis
      using dsd_DecodeFromBytes_4 [OF l8 l, of r ys] by (simp add: rd_word_roundtrip del: be_nat.simps)
  next
    assume l: "length (AsSlice a) = 16"
    have "Addr6 (of_nat (be_nat (AsSlice a))) [] = a"
      using af by (simp add: AddrFromSlice_16 [OF l] del: be_nat.simps)
    then show ?thesis
      using dsd_DecodeFromBytes_16 [OF l8 l, of r ys] by (simp add: rd_word_roundtrip del: be_nat.simps)
  qed
qed

lemma byte_of_int_small: "0 \<le> b \<Longrightarrow> b < 256 \<Longrightarrow> int (unat (of_int b :: byte)) = b"
proof -
  assume b: "0 \<le> b" "b < 256"
  then have "(of_int b :: byte) = of_nat (nat b)" by simp
  moreover have "nat b < 256" using b by simp
  ultimately have "unat (of_int b :: byte) = nat b" by (simp only: unat_byte_small)
  then show ?thesis using b by simp
qed

lemma isd_decode_serialized:
  assumes nz: "Addr_of pfx \<noteq> AddrZero" and zl: "Zone (Addr_of pfx) = []"
    and b: "0 \<le> Bits pfx" "Bits pfx \<le> int (BitLen (Addr_of pfx))"
  shows "isd_DecodeFromBytes r
           \<lparr>elems = nat_bytes 8 (unat w) @ of_int (Bits pfx) # AsSlice (Addr_of pfx), beyond = ys\<rparr>
         = Inr \<lparr>isd_RD = Some (RouteDistinguisher w), isd_PrefixLength = of_int (Bits pfx),
                isd_Prefix = pfx\<rparr>"
proof -
  let ?d = "nat_bytes 8 (unat w)"
  let ?data = "\<lparr>elems = ?d @ of_int (Bits pfx) # AsSlice (Addr_of pfx), beyond = ys\<rparr>"
  have l8: "length ?d = 8" by simp
  have rd: "GetRouteDistinguisher ?data = Inr (RouteDistinguisher w)"
    using GetRouteDistinguisher_at [OF l8, of "of_int (Bits pfx) # AsSlice (Addr_of pfx)" ys]
    by (simp only: rd_word_roundtrip)
  have ix: "index ?data 8 = Inr (of_int (Bits pfx))"
    by (rule index_at [where pre = ?d and post = "AsSlice (Addr_of pfx)"]) simp_all
  have sf: "slice_from ?data 9 = Inr \<lparr>elems = AsSlice (Addr_of pfx), beyond = ys\<rparr>"
    by (simp add: slice_from_def len_def)
  have "BitLen (Addr_of pfx) \<le> 128" by (cases "Addr_of pfx") simp_all
  then have "Bits pfx < 256" using b(2) by simp
  then have ub: "int (unat (of_int (Bits pfx) :: byte)) = Bits pfx"
    using b(1) by (rule byte_of_int_small [rotated])
  then have ub': "uint (of_int (Bits pfx) :: byte) = Bits pfx" by simp
  have pf: "PrefixFrom (Addr_of pfx) (Bits pfx) = pfx"
    using nz b by (simp add: PrefixFrom_def withoutZone_id [OF zl])
  have nb: "Bits pfx \<noteq> - 1" using b(1) by simp
  have ln: "\<not> len ?data < 8" by (simp add: len_def)
  show ?thesis
    using ln nb
    by (cases r)
       (simp add: isd_DecodeFromBytes_def rd ix sf AddrFromSlice_AsSlice [OF nz zl] ub' pf Let_def)
qed


lemma t2_finish_at:
  assumes "slice_range data p (p + 4) = Inr \<lparr>elems = tb, beyond = zs\<rparr>" "length tb = 4"
  shows "t2_finish r data ea p 4 =
           Inr (r\<lparr>t2_EndpointAddress := ea, t2_TEID := of_nat (be_nat tb)\<rparr>)"
  using assms by (simp add: t2_finish_def Let_def Uint32_4 del: be_nat.simps)

lemma t2_decode_framed_4:
  assumes d: "length d = 8" and ab: "length ab = 4" and tb: "length tb = 4"
  shows "t2_DecodeFromBytes r \<lparr>elems = d @ 64 # ab @ tb @ rest, beyond = ys\<rparr> =
             Inr (r\<lparr>t2_RD := Some (RouteDistinguisher (of_nat (be_nat d))),
                    t2_EndpointAddressLength := 64,
                    t2_EndpointAddress := Addr4 (of_nat (be_nat ab)),
                    t2_TEID := of_nat (be_nat tb)\<rparr>)"
proof -
  let ?data = "\<lparr>elems = d @ 64 # ab @ tb @ rest, beyond = ys\<rparr>"
  have rd: "GetRouteDistinguisher ?data = Inr (RouteDistinguisher (of_nat (be_nat d)))"
    using d by (rule GetRouteDistinguisher_at)
  have ln: "\<not> len ?data < 8" by (simp add: len_def d)
  have ix: "index ?data 8 = Inr 64"
    by (rule index_at [where pre = d]) (simp_all add: d)
  have "slice_range ?data 9 (9 + 4) = Inr \<lparr>elems = ab, beyond = tb @ rest @ ys\<rparr>"
    by (rule slice_range_at [where pre = "d @ [64]"]) (simp_all add: d ab)
  then have s1: "slice_range ?data 9 13 = Inr \<lparr>elems = ab, beyond = tb @ rest @ ys\<rparr>"
    by simp
  have "slice_range ?data 13 (13 + 4) = Inr \<lparr>elems = tb, beyond = rest @ ys\<rparr>"
    by (rule slice_range_at [where pre = "d @ 64 # ab"]) (simp_all add: d ab tb)
  then have fin: "t2_finish r' ?data a 13 4 =
               Inr (r'\<lparr>t2_EndpointAddress := a, t2_TEID := of_nat (be_nat tb)\<rparr>)" for r' a
    using tb by (rule t2_finish_at)
  show ?thesis
    using ln
    by (simp add: t2_DecodeFromBytes_def rd ix s1 fin AddrFromSlice_4 [OF ab] Let_def
          del: be_nat.simps)
qed

lemma t2_decode_framed_16:
  assumes d: "length d = 8" and ab: "length ab = 16" and tb: "length tb = 4"
  shows "t2_DecodeFromBytes r \<lparr>elems = d @ 160 # ab @ tb @ rest, beyond = ys\<rparr> =
             Inr (r\<lparr>t2_RD := Some (RouteDistinguisher (of_nat (be_nat d))),
                    t2_EndpointAddressLength := 160,
                    t2_EndpointAddress := Addr6 (of_nat (be_nat ab)) [],
                    t2_TEID := of_nat (be_nat tb)\<rparr>)"
proof -
  let ?data = "\<lparr>elems = d @ 160 # ab @ tb @ rest, beyond = ys\<rparr>"
  have rd: "GetRouteDistinguisher ?data = Inr (RouteDistinguisher (of_nat (be_nat d)))"
    using d by (rule GetRouteDistinguisher_at)
  have ln: "\<not> len ?data < 8" by (simp add: len_def d)
  have ix: "index ?data 8 = Inr 160"
    by (rule index_at [where pre = d]) (simp_all add: d)
  have "slice_range ?data 9 (9 + 16) = Inr \<lparr>elems = ab, beyond = tb @ rest @ ys\<rparr>"
    by (rule slice_range_at [where pre = "d @ [160]"]) (simp_all add: d ab)
  then have s1: "slice_range ?data 9 25 = Inr \<lparr>elems = ab, beyond = tb @ rest @ ys\<rparr>"
    by simp
  have "slice_range ?data 25 (25 + 4) = Inr \<lparr>elems = tb, beyond = rest @ ys\<rparr>"
    by (rule slice_range_at [where pre = "d @ 160 # ab"]) (simp_all add: d ab tb)
  then have fin: "t2_finish r' ?data a 25 4 =
               Inr (r'\<lparr>t2_EndpointAddress := a, t2_TEID := of_nat (be_nat tb)\<rparr>)" for r' a
    using tb by (rule t2_finish_at)
  show ?thesis
    using ln
    by (simp add: t2_DecodeFromBytes_def rd ix s1 fin AddrFromSlice_16 [OF ab] Let_def
          del: be_nat.simps)
qed

lemma t2_decode_serialized:
  assumes "ea \<noteq> AddrZero" and zl: "Zone ea = []"
  shows "t2_DecodeFromBytes r
           \<lparr>elems = nat_bytes 8 (unat w) @ (of_nat (BitLen ea) + 32) # AsSlice ea
                      @ nat_bytes 4 (unat teid), beyond = ys\<rparr>
         = Inr \<lparr>t2_RD = Some (RouteDistinguisher w),
                t2_EndpointAddressLength = of_nat (BitLen ea) + 32,
                t2_EndpointAddress = ea, t2_TEID = teid\<rparr>"
proof (cases ea)
  case AddrZero
  with assms show ?thesis by simp
next
  case (Addr4 x)
  have "(of_nat (be_nat (nat_bytes 4 (unat x))) :: 32 word) = x"
    by (rule word_of_be_nat_nat_bytes) simp
  then show ?thesis
    using t2_decode_framed_4 [of "nat_bytes 8 (unat w)" "nat_bytes 4 (unat x)"
        "nat_bytes 4 (unat teid)" r "[]" ys]
    by (cases r) (simp add: Addr4 rd_word_roundtrip teid_word_roundtrip del: be_nat.simps)
next
  case (Addr6 x z)
  have "(of_nat (be_nat (nat_bytes 16 (unat x))) :: 128 word) = x"
    by (rule word_of_be_nat_nat_bytes) simp
  moreover have "z = []" using zl Addr6 by simp
  ultimately show ?thesis
    using t2_decode_framed_16 [of "nat_bytes 8 (unat w)" "nat_bytes 16 (unat x)"
        "nat_bytes 4 (unat teid)" r "[]" ys]
    by (cases r) (simp add: Addr6 rd_word_roundtrip teid_word_roundtrip del: be_nat.simps)
qed


lemma t1_decode_framed:
  assumes d: "length d = 8"
    and pl: "pl = 32 \<or> pl = 128" and pfx: "length pfx = unat pl div 8"
    and teid: "length teid = 4"
    and el: "el = 32 \<or> el = 128" and ea: "length ea = unat el div 8"
  shows "\<exists>a e. AddrFromSlice pfx = Some a \<and> AddrFromSlice ea = Some e \<and>
           t1_DecodeFromBytes r
             \<lparr>elems = d @ pl # pfx @ teid @ qfi # el # ea @ rest, beyond = ys\<rparr> =
           Inr (r\<lparr>t1_RD := Some (RouteDistinguisher (of_nat (be_nat d))), t1_PrefixLength := pl,
                  t1_Prefix := a, t1_TEID := of_nat (be_nat teid), t1_QFI := qfi,
                  t1_EndpointAddressLength := el, t1_EndpointAddress := e\<rparr>)"
proof -
  let ?data = "\<lparr>elems = d @ pl # pfx @ teid @ qfi # el # ea @ rest, beyond = ys\<rparr>"
  from el ea have k: "unat (el div 8) = length ea" by (simp add: unat_div)
  from el ea have "length ea = 4 \<or> length ea = 16" by auto
  then obtain e where e: "AddrFromSlice ea = Some e"
    using AddrFromSlice_AsSlice_ex by blast
  obtain a where a: "AddrFromSlice pfx = Some a"
    and dec: "t1_DecodeFromBytes r ?data =
      (let r = r\<lparr>t1_RD := Some (RouteDistinguisher (of_nat (be_nat d))), t1_PrefixLength := pl,
                  t1_Prefix := a, t1_TEID := of_nat (be_nat teid), t1_QFI := qfi,
                  t1_EndpointAddressLength := el\<rparr>;
           p = 15 + length pfx
       in if el = 32 \<or> el = 128 then
            andThen (slice_range ?data p (p + unat (el div 8))) (\<lambda>s.
              case AddrFromSlice (elems s) of
                None \<Rightarrow> Inl (MalformedAttribute (''Invalid Endpoint Address: '' @ hex (elems s)))
              | Some ea \<Rightarrow> Inr (r\<lparr>t1_EndpointAddress := ea\<rparr>))
          else Inl (MalformedAttribute (''Invalid Endpoint Address length: '' @ dec (unat el))))"
    using t1_DecodeFromBytes_upto [OF d pl pfx teid, of ?data qfi el "ea @ rest" r] by auto
  have sl: "slice_range ?data (15 + length pfx) (15 + length pfx + length ea)
              = Inr \<lparr>elems = ea, beyond = rest @ ys\<rparr>"
    by (rule slice_range_at [where pre = "d @ pl # pfx @ teid @ [qfi, el]"])
       (simp_all add: d teid)
  have "t1_DecodeFromBytes r ?data =
          Inr (r\<lparr>t1_RD := Some (RouteDistinguisher (of_nat (be_nat d))), t1_PrefixLength := pl,
                  t1_Prefix := a, t1_TEID := of_nat (be_nat teid), t1_QFI := qfi,
                  t1_EndpointAddressLength := el, t1_EndpointAddress := e\<rparr>)"
    unfolding dec Let_def k sl using el e by simp
  with a e show ?thesis by blast
qed

lemma BitLen_byte:
  assumes "a \<noteq> AddrZero"
  shows "(of_nat (BitLen a) :: byte) = 32 \<or> (of_nat (BitLen a) :: byte) = 128"
    and "length (AsSlice a) = unat (of_nat (BitLen a) :: byte) div 8"
  using assms by (cases a; simp)+

lemma t1_decode_serialized:
  assumes p: "p \<noteq> AddrZero" and ea: "ea \<noteq> AddrZero"
    and zp: "Zone p = []" and ze: "Zone ea = []"
  shows "t1_DecodeFromBytes r
           \<lparr>elems = nat_bytes 8 (unat w) @ of_nat (BitLen p) # AsSlice p @ nat_bytes 4 (unat teid)
                      @ qfi # of_nat (BitLen ea) # AsSlice ea, beyond = ys\<rparr>
         = Inr \<lparr>t1_RD = Some (RouteDistinguisher w), t1_PrefixLength = of_nat (BitLen p),
                t1_Prefix = p, t1_TEID = teid, t1_QFI = qfi,
                t1_EndpointAddressLength = of_nat (BitLen ea), t1_EndpointAddress = ea\<rparr>"
proof -
  have l8: "length (nat_bytes 8 (unat w)) = 8" and l4: "length (nat_bytes 4 (unat teid)) = 4"
    by simp_all
  from t1_decode_framed [OF l8 BitLen_byte [OF p] l4 BitLen_byte [OF ea], of r qfi "[]" ys]
  obtain a e where "AddrFromSlice (AsSlice p) = Some a" "AddrFromSlice (AsSlice ea) = Some e"
    and dec: "t1_DecodeFromBytes r
             \<lparr>elems = nat_bytes 8 (unat w) @ of_nat (BitLen p) # AsSlice p @ nat_bytes 4 (unat teid)
                        @ qfi # of_nat (BitLen ea) # AsSlice ea @ [], beyond = ys\<rparr> =
           Inr (r\<lparr>t1_RD := Some (RouteDistinguisher (of_nat (be_nat (nat_bytes 8 (unat w))))),
                  t1_PrefixLength := of_nat (BitLen p),
                  t1_Prefix := a, t1_TEID := of_nat (be_nat (nat_bytes 4 (unat teid))),
                  t1_QFI := qfi,
                  t1_EndpointAddressLength := of_nat (BitLen ea), t1_EndpointAddress := e\<rparr>)"
    by blast
  then have "a = p" "e = ea"
    using AddrFromSlice_AsSlice [OF p zp] AddrFromSlice_AsSlice [OF ea ze] by simp_all
  then show ?thesis
    using dec by (cases r) (simp add: rd_word_roundtrip teid_word_roundtrip del: be_nat.simps)
qed


lemma envelope_roundtrip:
  assumes v: "v = \<lparr>ArchitectureType = at, RouteType = rt, Length = l, RouteTypeData = Some r\<rparr>"
    and g: "getMUPRouteType at rt = Inr r0"
    and s: "route_Serialize r = Inr body"
    and dcd: "route_DecodeFromBytes r0 \<lparr>elems = body, beyond = ys\<rparr> = Inr r"
    and l: "unat l = length body"
  shows "\<exists>bs. MUPNLRI_Serialize v = Inr bs
              \<and> MUPNLRI_DecodeFromBytes n0 \<lparr>elems = bs, beyond = ys\<rparr> = Inr v"
proof -
  obtain x y where xy: "nat_bytes 2 (unat rt) = [x, y]" by (simp add: nat_bytes_2)
  have "(of_nat (be_nat (nat_bytes 2 (unat rt))) :: 16 word) = rt"
    by (rule word_of_be_nat_nat_bytes) simp
  then have rt: "(of_nat (be_nat [x, y]) :: 16 word) = rt" by (simp only: xy)
  have ser: "MUPNLRI_Serialize v = Inr (at # x # y # l # body)"
    using MUPNLRI_Serialize_eq [of v r body] s xy by (simp add: v)
  have "MUPNLRI_DecodeFromBytes n0 \<lparr>elems = at # x # y # l # body, beyond = ys\<rparr> = Inr v"
    unfolding MUPNLRI_DecodeFromBytes_header rt using l g dcd by (simp add: v)
  with ser show ?thesis by blast
qed

lemma getMUPRouteType_defined:
  "getMUPRouteType MUP_ARCH_TYPE_3GPP_5G MUP_ROUTE_TYPE_INTERWORK_SEGMENT_DISCOVERY
     = Inr (Interwork zero_isd)"
  "getMUPRouteType MUP_ARCH_TYPE_3GPP_5G MUP_ROUTE_TYPE_DIRECT_SEGMENT_DISCOVERY
     = Inr (Direct zero_dsd)"
  "getMUPRouteType MUP_ARCH_TYPE_3GPP_5G MUP_ROUTE_TYPE_TYPE_1_SESSION_TRANSFORMED
     = Inr (Type1 zero_t1)"
  "getMUPRouteType MUP_ARCH_TYPE_3GPP_5G MUP_ROUTE_TYPE_TYPE_2_SESSION_TRANSFORMED
     = Inr (Type2 zero_t2)"
  by (simp_all add: getMUPRouteType_def
        MUP_ROUTE_TYPE_INTERWORK_SEGMENT_DISCOVERY_def MUP_ROUTE_TYPE_DIRECT_SEGMENT_DISCOVERY_def
        MUP_ROUTE_TYPE_TYPE_1_SESSION_TRANSFORMED_def MUP_ROUTE_TYPE_TYPE_2_SESSION_TRANSFORMED_def)

lemma constructed_roundtrip:
  assumes "(v = NewMUPInterworkSegmentDiscoveryRoute (Some rd) pfx \<and> Addr_of pfx \<noteq> AddrZero
              \<and> Zone (Addr_of pfx) = []
              \<and> 0 \<le> Bits pfx \<and> Bits pfx \<le> int (BitLen (Addr_of pfx)))
         \<or> (v = NewMUPDirectSegmentDiscoveryRoute (Some rd) a \<and> a \<noteq> AddrZero \<and> Zone a = [])
         \<or> (v = NewMUPType1SessionTransformedRoute (Some rd) p teid qfi ea
              \<and> p \<noteq> AddrZero \<and> Zone p = [] \<and> ea \<noteq> AddrZero \<and> Zone ea = [])
         \<or> (v = NewMUPType2SessionTransformedRoute (Some rd) ea teid
              \<and> ea \<noteq> AddrZero \<and> Zone ea = [])"
  shows "\<exists>bs. MUPNLRI_Serialize v = Inr bs
              \<and> MUPNLRI_DecodeFromBytes n0 \<lparr>elems = bs, beyond = ys\<rparr> = Inr v"
proof -
  obtain w where w: "rd = RouteDistinguisher w" by (cases rd)
  have c: "v = NewMUPInterworkSegmentDiscoveryRoute (Some rd) pfx
         \<or> v = NewMUPDirectSegmentDiscoveryRoute (Some rd) a
         \<or> v = NewMUPType1SessionTransformedRoute (Some rd) p teid qfi ea
         \<or> v = NewMUPType2SessionTransformedRoute (Some rd) ea teid"
    using assms by blast
  from constructed_Length [OF c]
  obtain r body where r: "RouteTypeData v = Some r" and body: "route_Serialize r = Inr body"
    and l: "unat (Length v) = length body"
    by blast
  consider (i) "v = NewMUPInterworkSegmentDiscoveryRoute (Some rd) pfx" "Addr_of pfx \<noteq> AddrZero"
      "Zone (Addr_of pfx) = []" "0 \<le> Bits pfx" "Bits pfx \<le> int (BitLen (Addr_of pfx))"
    | (d) "v = NewMUPDirectSegmentDiscoveryRoute (Some rd) a" "a \<noteq> AddrZero" "Zone a = []"
    | (t1) "v = NewMUPType1SessionTransformedRoute (Some rd) p teid qfi ea"
      "p \<noteq> AddrZero" "ea \<noteq> AddrZero" "Zone p = []" "Zone ea = []"
    | (t2) "v = NewMUPType2SessionTransformedRoute (Some rd) ea teid" "ea \<noteq> AddrZero"
      "Zone ea = []"
    using assms by blast
  then show ?thesis
  proof cases
    case i
    let ?x = "\<lparr>isd_RD = Some rd, isd_PrefixLength = of_int (Bits pfx), isd_Prefix = pfx\<rparr>"
    have v: "v = \<lparr>ArchitectureType = MUP_ARCH_TYPE_3GPP_5G,
                  RouteType = MUP_ROUTE_TYPE_INTERWORK_SEGMENT_DISCOVERY,
                  Length = Length v, RouteTypeData = Some (Interwork ?x)\<rparr>"
      unfolding i(1) by (simp add: NewMUPInterworkSegmentDiscoveryRoute_def NewMUPNLRI_def)
    have rr: "r = Interwork ?x" using r v by (metis MUPNLRI.select_convs(4) option.inject)
    have b: "body = nat_bytes 8 (unat w) @ of_int (Bits pfx) # AsSlice (Addr_of pfx)"
      using body unfolding rr by (simp add: isd_Serialize_eq [where b = "nat_bytes 8 (unat w)"] rd_buf_Some w)
    have "route_DecodeFromBytes (Interwork zero_isd) \<lparr>elems = body, beyond = ys\<rparr> = Inr r"
      unfolding b rr using isd_decode_serialized [OF i(2,3,4,5), of zero_isd w ys] by (simp add: w)
    from envelope_roundtrip [OF v getMUPRouteType_defined(1) body [unfolded rr] this [unfolded rr] l]
    show ?thesis .
  next
    case d
    let ?x = "\<lparr>dsd_RD = Some rd, dsd_Address = a\<rparr>"
    have v: "v = \<lparr>ArchitectureType = MUP_ARCH_TYPE_3GPP_5G,
                  RouteType = MUP_ROUTE_TYPE_DIRECT_SEGMENT_DISCOVERY,
                  Length = Length v, RouteTypeData = Some (Direct ?x)\<rparr>"
      unfolding d(1) by (simp add: NewMUPDirectSegmentDiscoveryRoute_def NewMUPNLRI_def)
    have rr: "r = Direct ?x" using r v by (metis MUPNLRI.select_convs(4) option.inject)
    have b: "body = nat_bytes 8 (unat w) @ AsSlice a"
      using body unfolding rr by (simp add: dsd_Serialize_eq [where b = "nat_bytes 8 (unat w)"] rd_buf_Some w)
    have "route_DecodeFromBytes (Direct zero_dsd) \<lparr>elems = body, beyond = ys\<rparr> = Inr r"
      unfolding b rr using dsd_decode_serialized [OF d(2,3), of zero_dsd w ys] by (simp add: w)
    from envelope_roundtrip [OF v getMUPRouteType_defined(2) body [unfolded rr] this [unfolded rr] l]
    show ?thesis .
  next
    case t1
    let ?x = "\<lparr>t1_RD = Some rd, t1_PrefixLength = of_nat (BitLen p), t1_Prefix = p,
               t1_TEID = teid, t1_QFI = qfi,
               t1_EndpointAddressLength = of_nat (BitLen ea), t1_EndpointAddress = ea\<rparr>"
    have v: "v = \<lparr>ArchitectureType = MUP_ARCH_TYPE_3GPP_5G,
                  RouteType = MUP_ROUTE_TYPE_TYPE_1_SESSION_TRANSFORMED,
                  Length = Length v, RouteTypeData = Some (Type1 ?x)\<rparr>"
      unfolding t1(1) by (simp add: NewMUPType1SessionTransformedRoute_def NewMUPNLRI_def)
    have rr: "r = Type1 ?x" using r v by (metis MUPNLRI.select_convs(4) option.inject)
    have b: "body = nat_bytes 8 (unat w) @ of_nat (BitLen p) # AsSlice p @ nat_bytes 4 (unat teid)
                      @ qfi # of_nat (BitLen ea) # AsSlice ea"
      using body unfolding rr by (simp add: t1_Serialize_eq [where b = "nat_bytes 8 (unat w)"] rd_buf_Some w)
    have "route_DecodeFromBytes (Type1 zero_t1) \<lparr>elems = body, beyond = ys\<rparr> = Inr r"
      unfolding b rr using t1_decode_serialized [OF t1(2,3,4,5), of zero_t1 w teid qfi ys] by (simp add: w)
    from envelope_roundtrip [OF v getMUPRouteType_defined(3) body [unfolded rr] this [unfolded rr] l]
    show ?thesis .
  next
    case t2
    let ?x = "\<lparr>t2_RD = Some rd, t2_EndpointAddressLength = of_nat (BitLen ea) + 32,
               t2_EndpointAddress = ea, t2_TEID = teid\<rparr>"
    have v: "v = \<lparr>ArchitectureType = MUP_ARCH_TYPE_3GPP_5G,
                  RouteType = MUP_ROUTE_TYPE_TYPE_2_SESSION_TRANSFORMED,
                  Length = Length v, RouteTypeData = Some (Type2 ?x)\<rparr>"
      unfolding t2(1) by (simp add: NewMUPType2SessionTransformedRoute_def NewMUPNLRI_def)
    have rr: "r = Type2 ?x" using r v by (metis MUPNLRI.select_convs(4) option.inject)
    have b: "body = nat_bytes 8 (unat w) @ (of_nat (BitLen ea) + 32) # AsSlice ea
                      @ nat_bytes 4 (unat teid)"
      using body unfolding rr by (simp add: t2_Serialize_eq [where b = "nat_bytes 8 (unat w)"] rd_buf_Some w)
    have "route_DecodeFromBytes (Type2 zero_t2) \<lparr>elems = body, beyond = ys\<rparr> = Inr r"
      unfolding b rr using t2_decode_serialized [OF t2(2,3), of zero_t2 w teid ys] by (simp add: w)
    from envelope_roundtrip [OF v getMUPRouteType_defined(4) body [unfolded rr] this [unfolded rr] l]
    show ?thesis .
  qed
qed


text \<open>
  Claim C3, amended. Decoding the encoding of an envelope gives the envelope back, for
  every envelope built by one of the four route constructors from a distinguisher that is
  present and that the distinguisher codec round-trips (its encoding has eight octets and
  the factory, given those octets, returns it), addresses that are not the zero address
  and carry no zone and, for the Interwork route, a valid prefix. Encoding the result of a
  successful decode gives the decoded octets back, provided the input is exactly four
  octets longer than the decoded body's own length \<open>Len\<close> and the decoded distinguisher
  encodes to the eight octets it was read from.
\<close>

theorem MUPNLRI_roundtrip:
  "(rd_Serialize rd = Inr b \<and> length b = 8
      \<and> (\<forall>more zs. GetRouteDistinguisher \<lparr>elems = b @ more, beyond = zs\<rparr> = Inr rd)
      \<and> ((v = NewMUPInterworkSegmentDiscoveryRoute (Some rd) pfx \<and> Addr_of pfx \<noteq> AddrZero
              \<and> Zone (Addr_of pfx) = []
              \<and> 0 \<le> Bits pfx \<and> Bits pfx \<le> int (BitLen (Addr_of pfx)))
         \<or> (v = NewMUPDirectSegmentDiscoveryRoute (Some rd) a \<and> a \<noteq> AddrZero \<and> Zone a = [])
         \<or> (v = NewMUPType1SessionTransformedRoute (Some rd) p teid qfi ea
              \<and> p \<noteq> AddrZero \<and> Zone p = [] \<and> ea \<noteq> AddrZero \<and> Zone ea = [])
         \<or> (v = NewMUPType2SessionTransformedRoute (Some rd) ea teid
              \<and> ea \<noteq> AddrZero \<and> Zone ea = []))
    \<longrightarrow> (\<exists>bs. MUPNLRI_Serialize v = Inr bs
              \<and> MUPNLRI_DecodeFromBytes n0 \<lparr>elems = bs, beyond = ys\<rparr> = Inr v))
   \<and> (MUPNLRI_DecodeFromBytes n0 \<lparr>elems = bs', beyond = ys\<rparr> = Inr n
        \<and> RouteTypeData n = Some r \<and> length bs' = 4 + route_Len r
        \<and> route_rd r = Some rd' \<and> rd_Serialize rd' = Inr (take 8 (drop 4 bs'))
      \<longrightarrow> MUPNLRI_Serialize n = Inr bs')"
proof (intro conjI impI)
  assume "rd_Serialize rd = Inr b \<and> length b = 8
      \<and> (\<forall>more zs. GetRouteDistinguisher \<lparr>elems = b @ more, beyond = zs\<rparr> = Inr rd)
      \<and> ((v = NewMUPInterworkSegmentDiscoveryRoute (Some rd) pfx \<and> Addr_of pfx \<noteq> AddrZero
              \<and> Zone (Addr_of pfx) = []
              \<and> 0 \<le> Bits pfx \<and> Bits pfx \<le> int (BitLen (Addr_of pfx)))
         \<or> (v = NewMUPDirectSegmentDiscoveryRoute (Some rd) a \<and> a \<noteq> AddrZero \<and> Zone a = [])
         \<or> (v = NewMUPType1SessionTransformedRoute (Some rd) p teid qfi ea
              \<and> p \<noteq> AddrZero \<and> Zone p = [] \<and> ea \<noteq> AddrZero \<and> Zone ea = [])
         \<or> (v = NewMUPType2SessionTransformedRoute (Some rd) ea teid
              \<and> ea \<noteq> AddrZero \<and> Zone ea = []))"
  then have "(v = NewMUPInterworkSegmentDiscoveryRoute (Some rd) pfx \<and> Addr_of pfx \<noteq> AddrZero
              \<and> Zone (Addr_of pfx) = []
              \<and> 0 \<le> Bits pfx \<and> Bits pfx \<le> int (BitLen (Addr_of pfx)))
         \<or> (v = NewMUPDirectSegmentDiscoveryRoute (Some rd) a \<and> a \<noteq> AddrZero \<and> Zone a = [])
         \<or> (v = NewMUPType1SessionTransformedRoute (Some rd) p teid qfi ea
              \<and> p \<noteq> AddrZero \<and> Zone p = [] \<and> ea \<noteq> AddrZero \<and> Zone ea = [])
         \<or> (v = NewMUPType2SessionTransformedRoute (Some rd) ea teid
              \<and> ea \<noteq> AddrZero \<and> Zone ea = [])"
    by blast
  then show "\<exists>bs. MUPNLRI_Serialize v = Inr bs
              \<and> MUPNLRI_DecodeFromBytes n0 \<lparr>elems = bs, beyond = ys\<rparr> = Inr v"
    by (rule constructed_roundtrip)
next
  assume "MUPNLRI_DecodeFromBytes n0 \<lparr>elems = bs', beyond = ys\<rparr> = Inr n
        \<and> RouteTypeData n = Some r \<and> length bs' = 4 + route_Len r
        \<and> route_rd r = Some rd' \<and> rd_Serialize rd' = Inr (take 8 (drop 4 bs'))"
  then show "MUPNLRI_Serialize n = Inr bs'"
    using MUPNLRI_reencode by blast
qed

lemma ser_ex2:
  "MUPNLRI_Serialize (NewMUPType2SessionTransformedRoute (Some (RouteDistinguisher 1))
       (Addr4 167772161) 42)
     = Inr [1, 0, 4, 17, 0, 0, 0, 0, 0, 0, 0, 1, 64, 10, 0, 0, 1, 0, 0, 0, 42]"
  by (simp add: eval_defs MUPNLRI_Serialize_eq t2_Serialize_eq rd_buf_Some nat_bytes_numeral)

lemma rd_ex:
  "rd_Serialize (RouteDistinguisher 1) = Inr [0, 0, 0, 0, 0, 0, 0, 1]"
  "\<forall>more zs. GetRouteDistinguisher \<lparr>elems = [0, 0, 0, 0, 0, 0, 0, 1] @ more, beyond = zs\<rparr>
     = Inr (RouteDistinguisher 1)"
proof -
  show "rd_Serialize (RouteDistinguisher 1) = Inr [0, 0, 0, 0, 0, 0, 0, 1]"
    by (simp add: nat_bytes_numeral)
  have "GetRouteDistinguisher \<lparr>elems = [0, 0, 0, 0, 0, 0, 0, 1] @ more, beyond = zs\<rparr>
          = Inr (RouteDistinguisher 1)" for more zs
    by (subst GetRouteDistinguisher_at) simp_all
  then show "\<forall>more zs. GetRouteDistinguisher
                \<lparr>elems = [0, 0, 0, 0, 0, 0, 0, 1] @ more, beyond = zs\<rparr>
              = Inr (RouteDistinguisher 1)"
    by blast
qed

theorem MUPNLRI_roundtrip_witness:
  "rd_Serialize (RouteDistinguisher 1) = Inr [0, 0, 0, 0, 0, 0, 0, 1]
   \<and> length [0, 0, 0, 0, 0, 0, 0, 1 :: byte] = 8
   \<and> (\<forall>more zs. GetRouteDistinguisher \<lparr>elems = [0, 0, 0, 0, 0, 0, 0, 1] @ more, beyond = zs\<rparr>
         = Inr (RouteDistinguisher 1))
   \<and> Addr4 167772161 \<noteq> AddrZero \<and> Zone (Addr4 167772161) = []
   \<and> MUPNLRI_Serialize (NewMUPType2SessionTransformedRoute (Some (RouteDistinguisher 1))
         (Addr4 167772161) 42)
       = Inr [1, 0, 4, 17, 0, 0, 0, 0, 0, 0, 0, 1, 64, 10, 0, 0, 1, 0, 0, 0, 42]
   \<and> MUPNLRI_DecodeFromBytes (NewMUPNLRI 0 0 None)
         \<lparr>elems = [1, 0, 4, 17, 0, 0, 0, 0, 0, 0, 0, 1, 64, 10, 0, 0, 1, 0, 0, 0, 42], beyond = []\<rparr>
       = Inr (NewMUPType2SessionTransformedRoute (Some (RouteDistinguisher 1)) (Addr4 167772161) 42)
   \<and> RouteTypeData (NewMUPType2SessionTransformedRoute (Some (RouteDistinguisher 1))
         (Addr4 167772161) 42)
       = Some (Type2 \<lparr>t2_RD = Some (RouteDistinguisher 1), t2_EndpointAddressLength = 64,
                       t2_EndpointAddress = Addr4 167772161, t2_TEID = 42\<rparr>)
   \<and> length [1, 0, 4, 17, 0, 0, 0, 0, 0, 0, 0, 1, 64, 10, 0, 0, 1, 0, 0, 0, 42 :: byte]
       = 4 + route_Len (Type2 \<lparr>t2_RD = Some (RouteDistinguisher 1), t2_EndpointAddressLength = 64,
                                t2_EndpointAddress = Addr4 167772161, t2_TEID = 42\<rparr>)
   \<and> route_rd (Type2 \<lparr>t2_RD = Some (RouteDistinguisher 1), t2_EndpointAddressLength = 64,
                        t2_EndpointAddress = Addr4 167772161, t2_TEID = 42\<rparr>)
       = Some (RouteDistinguisher 1)
   \<and> rd_Serialize (RouteDistinguisher 1)
       = Inr (take 8 (drop 4 [1, 0, 4, 17, 0, 0, 0, 0, 0, 0, 0, 1, 64, 10, 0, 0, 1, 0, 0, 0, 42]))"
proof -
  let ?v = "NewMUPType2SessionTransformedRoute (Some (RouteDistinguisher 1)) (Addr4 167772161) 42"
  let ?bs = "[1, 0, 4, 17, 0, 0, 0, 0, 0, 0, 0, 1, 64, 10, 0, 0, 1, 0, 0, 0, 42 :: byte]"
  let ?r = "Type2 \<lparr>t2_RD = Some (RouteDistinguisher 1), t2_EndpointAddressLength = 64,
                    t2_EndpointAddress = Addr4 167772161, t2_TEID = 42\<rparr>"
  have a: "Addr4 167772161 \<noteq> AddrZero" "Zone (Addr4 167772161) = []" by simp_all
  have l8: "length [0, 0, 0, 0, 0, 0, 0, 1 :: byte] = 8" by simp
  have dcd: "MUPNLRI_DecodeFromBytes (NewMUPNLRI 0 0 None) \<lparr>elems = ?bs, beyond = []\<rparr> = Inr ?v"
    using a l8 rd_ex ser_ex2
      MUPNLRI_roundtrip [where v = ?v and rd = "RouteDistinguisher 1"
        and b = "[0, 0, 0, 0, 0, 0, 0, 1]" and pfx = zero_Prefix and a = AddrZero
        and p = AddrZero and teid = 42 and qfi = 0 and ea = "Addr4 167772161"
        and ?n0.0 = "NewMUPNLRI 0 0 None" and ys = "[]"]
    by simp
  have rt: "RouteTypeData ?v = Some ?r" by (simp add: eval_defs)
  have ln: "length ?bs = 4 + route_Len ?r" by (simp add: t2_Len_def unat_div)
  have rr: "route_rd ?r = Some (RouteDistinguisher 1)" by simp
  have rs: "rd_Serialize (RouteDistinguisher 1) = Inr (take 8 (drop 4 ?bs))"
    using rd_ex(1) by simp
  show ?thesis
    using a l8 rd_ex ser_ex2 dcd rt ln rr rs by simp
qed

text \<open>
  Claim C3 as first stated fails: decoding accepts octets after the declared body, and
  encoding the decoded envelope does not reproduce them. A zone, too, is lost: the
  encoding of a Direct route for \<open>fe80::1%eth0\<close> decodes to the route for \<open>fe80::1\<close>.
\<close>

theorem MUPNLRI_roundtrip_trailing_counterexample:
  "MUPNLRI_DecodeFromBytes (NewMUPNLRI 0 0 None)
       \<lparr>elems = [1, 0, 2, 12, 0, 0, 0, 0, 0, 0, 0, 1, 10, 0, 0, 1, 255], beyond = []\<rparr>
     = Inr (NewMUPDirectSegmentDiscoveryRoute (Some (RouteDistinguisher 1)) (Addr4 167772161))
   \<and> MUPNLRI_Serialize
         (NewMUPDirectSegmentDiscoveryRoute (Some (RouteDistinguisher 1)) (Addr4 167772161))
     = Inr [1, 0, 2, 12, 0, 0, 0, 0, 0, 0, 0, 1, 10, 0, 0, 1]
   \<and> [1, 0, 2, 12, 0, 0, 0, 0, 0, 0, 0, 1, 10, 0, 0, 1 :: byte]
       \<noteq> [1, 0, 2, 12, 0, 0, 0, 0, 0, 0, 0, 1, 10, 0, 0, 1, 255]
   \<and> MUPNLRI_Serialize
         (NewMUPDirectSegmentDiscoveryRoute (Some (RouteDistinguisher 1))
            (Addr6 338288524927261089654018896841347694593 ''eth0''))
     = Inr [1, 0, 2, 24, 0, 0, 0, 0, 0, 0, 0, 1,
            254, 128, 0, 0, 0, 0, 0, 0, 0, 0, 0, 0, 0, 0, 0, 1]
   \<and> MUPNLRI_DecodeFromBytes (NewMUPNLRI 0 0 None)
       \<lparr>elems = [1, 0, 2, 24, 0, 0, 0, 0, 0, 0, 0, 1,
                 254, 128, 0, 0, 0, 0, 0, 0, 0, 0, 0, 0, 0, 0, 0, 1], beyond = []\<rparr>
     = Inr (NewMUPDirectSegmentDiscoveryRoute (Some (RouteDistinguisher 1))
              (Addr6 338288524927261089654018896841347694593 []))
   \<and> NewMUPDirectSegmentDiscoveryRoute (Some (RouteDistinguisher 1))
         (Addr6 338288524927261089654018896841347694593 [])
       \<noteq> NewMUPDirectSegmentDiscoveryRoute (Some (RouteDistinguisher 1))
           (Addr6 338288524927261089654018896841347694593 ''eth0'')"
proof -
  let ?W = "338288524927261089654018896841347694593 :: 128 word"
  let ?v0 = "NewMUPDirectSegmentDiscoveryRoute (Some (RouteDistinguisher 1)) (Addr6 ?W [])"
  let ?vz = "NewMUPDirectSegmentDiscoveryRoute (Some (RouteDistinguisher 1)) (Addr6 ?W ''eth0'')"
  let ?bz = "[1, 0, 2, 24, 0, 0, 0, 0, 0, 0, 0, 1,
              254, 128, 0, 0, 0, 0, 0, 0, 0, 0, 0, 0, 0, 0, 0, 1 :: byte]"
  have g: "getMUPRouteType 1 (of_nat (be_nat [0, 2])) = Inr (Direct zero_dsd)"
    by (simp add: getMUPRouteType_def MUP_ARCH_TYPE_3GPP_5G_def
          MUP_ROUTE_TYPE_INTERWORK_SEGMENT_DISCOVERY_def MUP_ROUTE_TYPE_DIRECT_SEGMENT_DISCOVERY_def)
  have d: "dsd_DecodeFromBytes zero_dsd
             \<lparr>elems = [0, 0, 0, 0, 0, 0, 0, 1] @ [10, 0, 0, 1], beyond = [255]\<rparr>
           = Inr \<lparr>dsd_RD = Some (RouteDistinguisher 1), dsd_Address = Addr4 167772161\<rparr>"
    by (subst dsd_DecodeFromBytes_4) simp_all
  have c1: "MUPNLRI_DecodeFromBytes (NewMUPNLRI 0 0 None)
       \<lparr>elems = [1, 0, 2, 12, 0, 0, 0, 0, 0, 0, 0, 1, 10, 0, 0, 1, 255], beyond = []\<rparr>
     = Inr (NewMUPDirectSegmentDiscoveryRoute (Some (RouteDistinguisher 1)) (Addr4 167772161))"
    unfolding MUPNLRI_DecodeFromBytes_header g using d by (simp add: eval_defs)
  have sz: "MUPNLRI_Serialize ?vz = Inr ?bz"
    by (simp add: eval_defs MUPNLRI_Serialize_eq dsd_Serialize_eq rd_buf_Some nat_bytes_numeral)
  have s0: "MUPNLRI_Serialize ?v0 = Inr ?bz"
    by (simp add: eval_defs MUPNLRI_Serialize_eq dsd_Serialize_eq rd_buf_Some nat_bytes_numeral)
  have "\<exists>bs. MUPNLRI_Serialize ?v0 = Inr bs
          \<and> MUPNLRI_DecodeFromBytes (NewMUPNLRI 0 0 None) \<lparr>elems = bs, beyond = []\<rparr> = Inr ?v0"
    by (rule constructed_roundtrip [where rd = "RouteDistinguisher 1" and a = "Addr6 ?W []"
          and pfx = zero_Prefix and p = AddrZero and ea = AddrZero and teid = 0 and qfi = 0])
       simp
  then have dz: "MUPNLRI_DecodeFromBytes (NewMUPNLRI 0 0 None) \<lparr>elems = ?bz, beyond = []\<rparr>
                   = Inr ?v0"
    unfolding s0 by simp
  have ne: "?v0 \<noteq> ?vz" by (simp add: eval_defs)
  show ?thesis using c1 ser_ex sz dz ne by simp
qed

end
